theory Spec2Isabelle
  imports Complex_Main "HOL-Library.Char_ord" "HOL-Library.List_Lexorder"
    "HOL-Library.Product_Lexorder"
begin

section \<open>Python values shared by both agents\<close>

text \<open>
  Python floats are modelled as reals (no rounding, no NaN), Python ints as \<open>int\<close>.
  A \<open>datetime\<close> is the number of microseconds since the epoch and a \<open>timedelta\<close> a
  number of microseconds, which is the resolution Python keeps.  Every method that reads
  \<open>datetime.utcnow()\<close> takes the reading as its argument \<open>now\<close>; the readings one call
  makes are taken to be the same instant.  Output written with \<open>print\<close> is not modelled.
\<close>

type_synonym datetime = int
type_synonym timedelta = int

definition total_seconds :: "timedelta \<Rightarrow> real" where
  "total_seconds d = real_of_int d / 1000000"

definition timedelta_minutes :: "int \<Rightarrow> timedelta" where
  "timedelta_minutes m = m * 60000000"

definition timedelta_days :: "int \<Rightarrow> timedelta" where
  "timedelta_days d = d * 86400000000"

datatype py_error = ZeroDivisionError | KeyError

definition py_truediv :: "real \<Rightarrow> real \<Rightarrow> py_error + real" where
  "py_truediv a b = (if b = 0 then Inl ZeroDivisionError else Inr (a / b))"

text \<open>
  A Python \<open>dict\<close> is an association list in insertion order.  Assigning to a key that
  is present keeps its position; a new key goes to the end.
\<close>

type_synonym ('k, 'v) dict = "('k \<times> 'v) list"

fun dict_set :: "'k \<Rightarrow> 'v \<Rightarrow> ('k, 'v) dict \<Rightarrow> ('k, 'v) dict" where
  "dict_set k v [] = [(k, v)]"
| "dict_set k v ((k', v') # d) = (if k' = k then (k, v) # d else (k', v') # dict_set k v d)"

definition dict_get :: "('k, 'v) dict \<Rightarrow> 'k \<Rightarrow> py_error + 'v" where
  "dict_get d k = (case map_of d k of None \<Rightarrow> Inl KeyError | Some v \<Rightarrow> Inr v)"

definition dict_contains :: "'k \<Rightarrow> ('k, 'v) dict \<Rightarrow> bool" where
  "dict_contains k d = (map_of d k \<noteq> None)"

definition dict_from_items :: "('k \<times> 'v) list \<Rightarrow> ('k, 'v) dict" where
  "dict_from_items xs = foldl (\<lambda>d (k, v). dict_set k v d) [] xs"

text \<open>The slices \<open>xs[:k]\<close> and \<open>xs[-n:]\<close> (the latter for a literal \<open>n > 0\<close>).\<close>

definition py_slice_to :: "int \<Rightarrow> 'a list \<Rightarrow> 'a list" where
  "py_slice_to k xs = (if 0 \<le> k then take (nat k) xs else take (nat (int (length xs) + k)) xs)"

definition py_slice_last :: "nat \<Rightarrow> 'a list \<Rightarrow> 'a list" where
  "py_slice_last n xs = drop (length xs - n) xs"

section \<open>Network booster agent\<close>

record NetworkMetrics =
  metrics_timestamp :: datetime
  connected_peers :: int
  total_bandwidth_mbps :: real
  avg_latency_ms :: real
  blocks_synced_per_minute :: real
  failed_connections :: int
  successful_connections :: int
  memory_usage_percent :: real
  disk_usage_percent :: real

record NetworkBooster =
  metrics_history :: "NetworkMetrics list"
  peer_latencies :: "(string, real) dict"
  throughput_stats :: "(string, real) dict"
  congestion_detected :: bool
  max_peers :: int
  max_outbound :: int
  max_inbound :: int

text \<open>The three options \<open>__init__\<close> reads from the configuration, each with its default.\<close>

record booster_config =
  cfg_max_peers :: "int option"
  cfg_max_outbound_peers :: "int option"
  cfg_max_inbound_peers :: "int option"

definition NetworkBooster_init :: "booster_config \<Rightarrow> NetworkBooster" where
  "NetworkBooster_init config =
     \<lparr> metrics_history = [], peer_latencies = [], throughput_stats = [],
       congestion_detected = False,
       max_peers = (case cfg_max_peers config of None \<Rightarrow> 50 | Some n \<Rightarrow> n),
       max_outbound = (case cfg_max_outbound_peers config of None \<Rightarrow> 25 | Some n \<Rightarrow> n),
       max_inbound = (case cfg_max_inbound_peers config of None \<Rightarrow> 25 | Some n \<Rightarrow> n) \<rparr>"

definition record_peer_latency :: "string \<Rightarrow> real \<Rightarrow> NetworkBooster \<Rightarrow> NetworkBooster" where
  "record_peer_latency peer latency_ms st =
     st\<lparr>peer_latencies := dict_set peer latency_ms (peer_latencies st)\<rparr>"

definition record_throughput :: "string \<Rightarrow> real \<Rightarrow> NetworkBooster \<Rightarrow> NetworkBooster" where
  "record_throughput peer mbps st =
     st\<lparr>throughput_stats := dict_set peer mbps (throughput_stats st)\<rparr>"

definition calculate_bandwidth :: "NetworkBooster \<Rightarrow> real" where
  "calculate_bandwidth st = sum_list (map snd (throughput_stats st))"

definition calculate_avg_latency :: "NetworkBooster \<Rightarrow> py_error + real" where
  "calculate_avg_latency st =
     (if peer_latencies st = [] then Inr 0
      else py_truediv (sum_list (map snd (peer_latencies st)))
             (real (length (peer_latencies st))))"

definition calculate_avg_throughput :: "NetworkBooster \<Rightarrow> py_error + real" where
  "calculate_avg_throughput st =
     (if throughput_stats st = [] then Inr 0
      else py_truediv (sum_list (map snd (throughput_stats st)))
             (real (length (throughput_stats st))))"

definition calculate_block_rate :: "NetworkBooster \<Rightarrow> real" where
  "calculate_block_rate st = real (length (peer_latencies st)) * 0.5"

definition count_failed_connections :: "NetworkBooster \<Rightarrow> int" where
  "count_failed_connections st = 0"

definition count_successful_connections :: "NetworkBooster \<Rightarrow> int" where
  "count_successful_connections st = int (length (peer_latencies st))"

definition get_memory_usage :: "NetworkBooster \<Rightarrow> real" where
  "get_memory_usage st = 35.0"

definition get_disk_usage :: "NetworkBooster \<Rightarrow> real" where
  "get_disk_usage st = 28.0"

definition monitor_network_health :: "datetime \<Rightarrow> NetworkBooster \<Rightarrow> py_error + NetworkBooster" where
  "monitor_network_health now st =
     (case calculate_avg_latency st of
        Inl e \<Rightarrow> Inl e
      | Inr avg \<Rightarrow>
          (let metrics = \<lparr> metrics_timestamp = now,
                           connected_peers = int (length (peer_latencies st)),
                           total_bandwidth_mbps = calculate_bandwidth st,
                           avg_latency_ms = avg,
                           blocks_synced_per_minute = calculate_block_rate st,
                           failed_connections = count_failed_connections st,
                           successful_connections = count_successful_connections st,
                           memory_usage_percent = get_memory_usage st,
                           disk_usage_percent = get_disk_usage st \<rparr>;
               history = metrics_history st @ [metrics]
           in Inr (st\<lparr>metrics_history :=
                      (if length history > 100 then py_slice_last 100 history else history)\<rparr>)))"

definition prune_poor_performers :: "NetworkBooster \<Rightarrow> NetworkBooster" where
  "prune_poor_performers st =
     (if int (length (peer_latencies st)) \<le> max_outbound st then st
      else let sorted_peers = sort_key snd (peer_latencies st);
               keep_peers = dict_from_items (py_slice_to (max_outbound st) sorted_peers)
           in st\<lparr>peer_latencies := keep_peers\<rparr>)"

text \<open>
  \<open>good_peers\<close> is computed and only printed by the source; it is kept here as the
  local it is.
\<close>

definition good_peers :: "NetworkBooster \<Rightarrow> string list" where
  "good_peers st =
     py_slice_to (max_outbound st)
       (map fst (filter (\<lambda>(p, latency). latency < 100) (sort_key snd (peer_latencies st))))"

definition optimize_peer_connections :: "NetworkBooster \<Rightarrow> NetworkBooster" where
  "optimize_peer_connections st =
     (if real (length (peer_latencies st)) < real_of_int (max_peers st) * 0.8 then st
      else let peer_count = length (peer_latencies st)
           in if real peer_count > real_of_int (max_peers st) * 0.9
              then prune_poor_performers st else st)"

definition detect_congestion :: "NetworkBooster \<Rightarrow> py_error + NetworkBooster" where
  "detect_congestion st =
     (if length (metrics_history st) < 5 then Inr st
      else let recent_metrics = py_slice_last 5 (metrics_history st)
           in case py_truediv (sum_list (map avg_latency_ms recent_metrics))
                     (real (length recent_metrics)) of
                Inl e \<Rightarrow> Inl e
              | Inr avg_latency \<Rightarrow>
                  if avg_latency > 500 then Inr (st\<lparr>congestion_detected := True\<rparr>)
                  else if avg_latency < 200 then Inr (st\<lparr>congestion_detected := False\<rparr>)
                  else Inr st)"

record propagation_policy =
  compression :: bool
  batch_size :: int
  priority :: string
  backpressure :: bool

definition optimize_block_propagation :: "NetworkBooster \<Rightarrow> int \<Rightarrow> propagation_policy" where
  "optimize_block_propagation st block_size_kb =
     (if congestion_detected st
      then \<lparr> compression = True, batch_size = 10, priority = ''critical_only'', backpressure = True \<rparr>
      else \<lparr> compression = False, batch_size = 100, priority = ''all'', backpressure = False \<rparr>)"

section \<open>Security guardian agent\<close>

datatype ThreatLevel = SAFE | CAUTION | WARNING | CRITICAL | BLOCKED

datatype AttackType =
  SYBIL | DOS | ECLIPSE | SELFISH_MINING | VDF_MANIPULATION | RATE_LIMIT | UNKNOWN

record PeerReputation =
  peer_id :: string
  ip_address :: string
  trust_score :: real
  successful_blocks :: int
  failed_validations :: int
  dos_attempts :: int
  sybil_connections :: int
  first_seen :: datetime
  last_seen :: datetime
  blocked :: bool
  block_reason :: string
  block_until :: "datetime option"

text \<open>The dataclass constructor as \<open>register_peer\<close> calls it, with the field defaults.\<close>

definition new_PeerReputation :: "string \<Rightarrow> string \<Rightarrow> datetime \<Rightarrow> PeerReputation" where
  "new_PeerReputation pid ip now =
     \<lparr> peer_id = pid, ip_address = ip, trust_score = 0.5, successful_blocks = 0,
       failed_validations = 0, dos_attempts = 0, sybil_connections = 0,
       first_seen = now, last_seen = now, blocked = False, block_reason = [],
       block_until = None \<rparr>"

record SecurityEvent =
  timestamp :: datetime
  event_type :: AttackType
  event_peer_id :: string
  severity :: ThreatLevel
  description :: string
  action_taken :: string

record SecurityGuardian =
  peer_reputation :: "(string, PeerReputation) dict"
  blocked_ips :: "string set"
  security_events :: "SecurityEvent list"
  connection_attempts :: "(string, datetime list) dict"
  dos_threshold :: int
  min_trust_score :: real
  blacklist_duration_minutes :: int

record guardian_config =
  cfg_rate_limit_requests_per_second :: "int option"
  cfg_minimum_trust_score :: "real option"
  cfg_blacklist_duration_minutes :: "int option"

definition SecurityGuardian_init :: "guardian_config \<Rightarrow> SecurityGuardian" where
  "SecurityGuardian_init config =
     \<lparr> peer_reputation = [], blocked_ips = {}, security_events = [], connection_attempts = [],
       dos_threshold =
         (case cfg_rate_limit_requests_per_second config of None \<Rightarrow> 100 | Some n \<Rightarrow> n),
       min_trust_score = (case cfg_minimum_trust_score config of None \<Rightarrow> 0.6 | Some x \<Rightarrow> x),
       blacklist_duration_minutes =
         (case cfg_blacklist_duration_minutes config of None \<Rightarrow> 60 | Some n \<Rightarrow> n) \<rparr>"

subsection \<open>Formatting the numbers that event descriptions quote\<close>

fun str_nat :: "nat \<Rightarrow> string" where
  "str_nat n =
     (if n < 10 then [''0123456789'' ! n]
      else str_nat (n div 10) @ [''0123456789'' ! (n mod 10)])"

definition round_half_even :: "real \<Rightarrow> int" where
  "round_half_even x =
     (let f = \<lfloor>x\<rfloor>; d = x - real_of_int f
      in if d < 1 / 2 then f else if 1 / 2 < d then f + 1 else if even f then f else f + 1)"

text \<open>The format \<open>{x:.0f}\<close>.\<close>

definition format_0f :: "real \<Rightarrow> string" where
  "format_0f x =
     (if x < 0 then ''-'' @ str_nat (nat (round_half_even (- x)))
      else str_nat (nat (round_half_even x)))"

subsection \<open>Registry operations\<close>

definition register_peer :: "string \<Rightarrow> string \<Rightarrow> datetime \<Rightarrow> SecurityGuardian \<Rightarrow> SecurityGuardian" where
  "register_peer pid ip now st =
     (if \<not> dict_contains pid (peer_reputation st)
      then st\<lparr>peer_reputation := dict_set pid (new_PeerReputation pid ip now) (peer_reputation st)\<rparr>
      else st)"

definition record_successful_block :: "string \<Rightarrow> datetime \<Rightarrow> SecurityGuardian \<Rightarrow> SecurityGuardian" where
  "record_successful_block pid now st =
     (case map_of (peer_reputation st) pid of
        None \<Rightarrow> st
      | Some reputation \<Rightarrow>
          st\<lparr>peer_reputation :=
               dict_set pid
                 (reputation\<lparr>successful_blocks := successful_blocks reputation + 1,
                             last_seen := now\<rparr>)
                 (peer_reputation st)\<rparr>)"

definition record_failed_validation :: "string \<Rightarrow> SecurityGuardian \<Rightarrow> SecurityGuardian" where
  "record_failed_validation pid st =
     (case map_of (peer_reputation st) pid of
        None \<Rightarrow> st
      | Some reputation \<Rightarrow>
          st\<lparr>peer_reputation :=
               dict_set pid
                 (reputation\<lparr>failed_validations := failed_validations reputation + 1,
                             trust_score := trust_score reputation * 0.8\<rparr>)
                 (peer_reputation st)\<rparr>)"

text \<open>\<open>block_ip\<close> stores the address only; the reason and the duration are printed.\<close>

definition block_ip :: "string \<Rightarrow> string \<Rightarrow> timedelta \<Rightarrow> SecurityGuardian \<Rightarrow> SecurityGuardian" where
  "block_ip ip reason duration st = st\<lparr>blocked_ips := insert ip (blocked_ips st)\<rparr>"

definition is_peer_trusted :: "SecurityGuardian \<Rightarrow> string \<Rightarrow> bool" where
  "is_peer_trusted st pid =
     (case map_of (peer_reputation st) pid of
        None \<Rightarrow> False
      | Some reputation \<Rightarrow> \<not> blocked reputation \<and> trust_score reputation \<ge> min_trust_score st)"

text \<open>\<open>connection_attempts\<close> is a \<open>defaultdict(list)\<close>: a first attempt creates the entry.\<close>

definition record_connection_attempt :: "string \<Rightarrow> datetime \<Rightarrow> SecurityGuardian \<Rightarrow> SecurityGuardian" where
  "record_connection_attempt ip now st =
     st\<lparr>connection_attempts :=
          (case map_of (connection_attempts st) ip of
             None \<Rightarrow> dict_set ip [now] (connection_attempts st)
           | Some timestamps \<Rightarrow> dict_set ip (timestamps @ [now]) (connection_attempts st))\<rparr>"

subsection \<open>Denial of service\<close>

definition recent_attempts :: "datetime \<Rightarrow> datetime list \<Rightarrow> datetime list" where
  "recent_attempts current_time timestamps =
     filter (\<lambda>ts. total_seconds (current_time - ts) < 60) timestamps"

definition dos_event :: "datetime \<Rightarrow> string \<Rightarrow> nat \<Rightarrow> SecurityEvent" where
  "dos_event current_time ip n =
     \<lparr> timestamp = current_time, event_type = DOS, event_peer_id = ''ip_'' @ ip,
       severity = CRITICAL,
       description = ''DoS attempt: '' @ str_nat n @ '' requests in 60s'',
       action_taken = ''BLOCKED'' \<rparr>"

text \<open>One iteration of the loop over \<open>list(self.connection_attempts.items())\<close>.\<close>

definition dos_step :: "datetime \<Rightarrow> SecurityGuardian \<Rightarrow> string \<times> datetime list \<Rightarrow> SecurityGuardian" where
  "dos_step current_time st item =
     (case item of (ip, timestamps) \<Rightarrow>
        let recent = recent_attempts current_time timestamps;
            st1 = st\<lparr>connection_attempts := dict_set ip recent (connection_attempts st)\<rparr>
        in if int (length recent) > dos_threshold st1
           then let threat = dos_event current_time ip (length recent);
                    st2 = block_ip ip ''DoS attack''
                            (timedelta_minutes (blacklist_duration_minutes st1)) st1
                in st2\<lparr>security_events := security_events st2 @ [threat]\<rparr>
           else st1)"

definition detect_dos_attacks :: "datetime \<Rightarrow> SecurityGuardian \<Rightarrow> SecurityGuardian" where
  "detect_dos_attacks current_time st = foldl (dos_step current_time) st (connection_attempts st)"

subsection \<open>Sybil\<close>

text \<open>
  A Python \<open>set\<close> of peer identifiers is a duplicate-free list in insertion order; the
  order in which Python iterates a set is not specified, and nothing below depends on it
  except the order of the independent updates of distinct peers.
\<close>

definition set_add :: "'a \<Rightarrow> 'a list \<Rightarrow> 'a list" where
  "set_add x xs = (if x \<in> set xs then xs else xs @ [x])"

definition ip_to_peers_add ::
  "(string, string list) dict \<Rightarrow> string \<times> PeerReputation \<Rightarrow> (string, string list) dict" where
  "ip_to_peers_add m item =
     (case item of (pid, reputation) \<Rightarrow>
        (case map_of m (ip_address reputation) of
           None \<Rightarrow> dict_set (ip_address reputation) (set_add pid []) m
         | Some peers \<Rightarrow> dict_set (ip_address reputation) (set_add pid peers) m))"

definition ip_to_peers :: "SecurityGuardian \<Rightarrow> (string, string list) dict" where
  "ip_to_peers st = foldl ip_to_peers_add [] (peer_reputation st)"

text \<open>
  The comprehension that builds \<open>suspicious_peers\<close> and the loop that halves their trust
  both index \<open>self.peer_reputation\<close>, which raises \<open>KeyError\<close> on a missing key.
\<close>

fun suspicious_peers :: "SecurityGuardian \<Rightarrow> string list \<Rightarrow> py_error + string list" where
  "suspicious_peers st [] = Inr []"
| "suspicious_peers st (p # ps) =
     (case dict_get (peer_reputation st) p of
        Inl e \<Rightarrow> Inl e
      | Inr reputation \<Rightarrow>
          (case suspicious_peers st ps of
             Inl e \<Rightarrow> Inl e
           | Inr rest \<Rightarrow>
               Inr (if trust_score reputation < min_trust_score st then p # rest else rest)))"

fun reduce_trust ::
  "string list \<Rightarrow> (string, PeerReputation) dict \<Rightarrow> py_error + (string, PeerReputation) dict" where
  "reduce_trust [] d = Inr d"
| "reduce_trust (p # ps) d =
     (case dict_get d p of
        Inl e \<Rightarrow> Inl e
      | Inr reputation \<Rightarrow>
          reduce_trust ps
            (dict_set p (reputation\<lparr>trust_score := trust_score reputation * 0.5\<rparr>) d))"

definition sybil_event :: "datetime \<Rightarrow> string \<Rightarrow> nat \<Rightarrow> SecurityEvent" where
  "sybil_event now ip n =
     \<lparr> timestamp = now, event_type = SYBIL, event_peer_id = ip, severity = WARNING,
       description = ''Sybil attack: '' @ str_nat n @ '' suspicious peers from '' @ ip,
       action_taken = ''MONITORED'' \<rparr>"

definition sybil_step ::
  "datetime \<Rightarrow> string \<times> string list \<Rightarrow> SecurityGuardian \<Rightarrow> py_error + SecurityGuardian" where
  "sybil_step now item st =
     (case item of (ip, peers) \<Rightarrow>
        (case suspicious_peers st peers of
           Inl e \<Rightarrow> Inl e
         | Inr suspicious \<Rightarrow>
             if length suspicious \<ge> 5
             then let threat = sybil_event now ip (length suspicious);
                      st1 = st\<lparr>security_events := security_events st @ [threat]\<rparr>
                  in (case reduce_trust suspicious (peer_reputation st1) of
                        Inl e \<Rightarrow> Inl e
                      | Inr d \<Rightarrow> Inr (st1\<lparr>peer_reputation := d\<rparr>))
             else Inr st))"

text \<open>A \<open>for\<close> loop whose body may raise: the first error ends it.\<close>

fun for_each :: "('a \<Rightarrow> 's \<Rightarrow> py_error + 's) \<Rightarrow> 'a list \<Rightarrow> 's \<Rightarrow> py_error + 's" where
  "for_each body [] s = Inr s"
| "for_each body (x # xs) s =
     (case body x s of Inl e \<Rightarrow> Inl e | Inr s' \<Rightarrow> for_each body xs s')"

definition detect_sybil_attacks :: "datetime \<Rightarrow> SecurityGuardian \<Rightarrow> py_error + SecurityGuardian" where
  "detect_sybil_attacks now st = for_each (sybil_step now) (ip_to_peers st) st"

subsection \<open>Eclipse and delay-function timing\<close>

definition eclipse_event :: "datetime \<Rightarrow> string \<Rightarrow> SecurityEvent" where
  "eclipse_event now pid =
     \<lparr> timestamp = now, event_type = ECLIPSE, event_peer_id = pid, severity = CAUTION,
       description = ''Suspicious: Peer showing abnormal validation patterns'',
       action_taken = ''MONITORED'' \<rparr>"

text \<open>
  The loops over \<open>self.peer_reputation.items()\<close> change the reputation object they hold
  and append to the event log; the functions below return the entries as changed and the
  events appended, in iteration order.
\<close>

fun eclipse_loop ::
  "datetime \<Rightarrow> (string, PeerReputation) dict \<Rightarrow>
   (string, PeerReputation) dict \<times> SecurityEvent list" where
  "eclipse_loop now [] = ([], [])"
| "eclipse_loop now ((pid, reputation) # rest) =
     (case eclipse_loop now rest of (rest', events) \<Rightarrow>
        if successful_blocks reputation > 1000 \<and> failed_validations reputation = 0
        then ((pid, reputation\<lparr>trust_score := trust_score reputation * 0.8\<rparr>) # rest',
              eclipse_event now pid # events)
        else ((pid, reputation) # rest', events))"

definition detect_eclipse_attacks :: "datetime \<Rightarrow> SecurityGuardian \<Rightarrow> SecurityGuardian" where
  "detect_eclipse_attacks now st =
     (case eclipse_loop now (peer_reputation st) of (d, events) \<Rightarrow>
        st\<lparr>peer_reputation := d, security_events := security_events st @ events\<rparr>)"

definition vdf_event :: "datetime \<Rightarrow> string \<Rightarrow> real \<Rightarrow> SecurityEvent" where
  "vdf_event now pid avg_time_per_block =
     \<lparr> timestamp = now, event_type = VDF_MANIPULATION, event_peer_id = pid, severity = WARNING,
       description = ''Block time too fast: '' @ format_0f avg_time_per_block
                      @ ''s (expected 1800s)'',
       action_taken = ''INVESTIGATED'' \<rparr>"

text \<open>The division is by \<open>successful_blocks > 10\<close>, so it cannot fail.\<close>

fun vdf_loop ::
  "datetime \<Rightarrow> (string, PeerReputation) dict \<Rightarrow>
   (string, PeerReputation) dict \<times> SecurityEvent list" where
  "vdf_loop now [] = ([], [])"
| "vdf_loop now ((pid, reputation) # rest) =
     (case vdf_loop now rest of (rest', events) \<Rightarrow>
        if successful_blocks reputation > 10
        then let avg_time_per_block =
                   total_seconds (now - first_seen reputation)
                     / real_of_int (successful_blocks reputation)
             in if avg_time_per_block < 1700
                then ((pid, reputation\<lparr>trust_score := trust_score reputation * 0.6\<rparr>) # rest',
                      vdf_event now pid avg_time_per_block # events)
                else ((pid, reputation) # rest', events)
        else ((pid, reputation) # rest', events))"

definition detect_vdf_manipulation :: "datetime \<Rightarrow> SecurityGuardian \<Rightarrow> SecurityGuardian" where
  "detect_vdf_manipulation now st =
     (case vdf_loop now (peer_reputation st) of (d, events) \<Rightarrow>
        st\<lparr>peer_reputation := d, security_events := security_events st @ events\<rparr>)"

subsection \<open>Reputation recompute and cleanup\<close>

text \<open>
  The body of the loop of \<open>update_peer_reputation\<close> for one peer.  The division by
  \<open>total_interactions\<close> is guarded by \<open>total_interactions > 0\<close>.
\<close>

definition update_reputation :: "datetime \<Rightarrow> PeerReputation \<Rightarrow> PeerReputation" where
  "update_reputation current_time reputation =
     (if blocked reputation
      then (case block_until reputation of
              None \<Rightarrow> reputation
            | Some until \<Rightarrow>
                if current_time > until
                then reputation\<lparr>blocked := False, block_reason := [], block_until := None,
                                trust_score := 0.3\<rparr>
                else reputation)
      else
        let total_interactions = successful_blocks reputation + failed_validations reputation;
            scored =
              (if total_interactions > 0
               then let success_rate = real_of_int (successful_blocks reputation)
                                         / real_of_int total_interactions;
                        score = success_rate * 0.7
                                  + min (real_of_int (dos_attempts reputation) / 10) 0.3 * (- 0.3)
                    in reputation\<lparr>trust_score := max 0.0 (min 1.0 score)\<rparr>
               else reputation);
            idle_hours = total_seconds (current_time - last_seen scored) / 3600
        in if idle_hours > 24
           then scored\<lparr>trust_score := trust_score scored * 0.9\<rparr>
           else scored)"

definition update_peer_reputation :: "datetime \<Rightarrow> SecurityGuardian \<Rightarrow> SecurityGuardian" where
  "update_peer_reputation current_time st =
     st\<lparr>peer_reputation :=
          map (\<lambda>(pid, reputation). (pid, update_reputation current_time reputation))
            (peer_reputation st)\<rparr>"

definition cleanup_expired_blocks :: "datetime \<Rightarrow> SecurityGuardian \<Rightarrow> SecurityGuardian" where
  "cleanup_expired_blocks current_time st =
     st\<lparr>security_events :=
          filter (\<lambda>e. current_time - timestamp e < timedelta_days 30) (security_events st)\<rparr>"

subsection \<open>The security cycle and the agent's interface\<close>

text \<open>One pass of the body of \<open>monitor_network\<close>, up to the status log.\<close>

definition security_cycle :: "datetime \<Rightarrow> SecurityGuardian \<Rightarrow> py_error + SecurityGuardian" where
  "security_cycle now st =
     (case detect_sybil_attacks now (detect_dos_attacks now st) of
        Inl e \<Rightarrow> Inl e
      | Inr st1 \<Rightarrow>
          Inr (cleanup_expired_blocks now
                (update_peer_reputation now
                  (detect_vdf_manipulation now (detect_eclipse_attacks now st1)))))"

datatype guardian_op =
    RegisterPeer string string datetime
  | RecordSuccessfulBlock string datetime
  | RecordFailedValidation string
  | RecordConnectionAttempt string datetime
  | BlockIp string string timedelta
  | DetectDos datetime
  | DetectSybil datetime
  | DetectEclipse datetime
  | DetectVdf datetime
  | UpdatePeerReputation datetime
  | CleanupExpiredBlocks datetime
  | SecurityCycle datetime

fun apply_op :: "guardian_op \<Rightarrow> SecurityGuardian \<Rightarrow> py_error + SecurityGuardian" where
  "apply_op (RegisterPeer pid ip now) st = Inr (register_peer pid ip now st)"
| "apply_op (RecordSuccessfulBlock pid now) st = Inr (record_successful_block pid now st)"
| "apply_op (RecordFailedValidation pid) st = Inr (record_failed_validation pid st)"
| "apply_op (RecordConnectionAttempt ip now) st = Inr (record_connection_attempt ip now st)"
| "apply_op (BlockIp ip reason duration) st = Inr (block_ip ip reason duration st)"
| "apply_op (DetectDos now) st = Inr (detect_dos_attacks now st)"
| "apply_op (DetectSybil now) st = detect_sybil_attacks now st"
| "apply_op (DetectEclipse now) st = Inr (detect_eclipse_attacks now st)"
| "apply_op (DetectVdf now) st = Inr (detect_vdf_manipulation now st)"
| "apply_op (UpdatePeerReputation now) st = Inr (update_peer_reputation now st)"
| "apply_op (CleanupExpiredBlocks now) st = Inr (cleanup_expired_blocks now st)"
| "apply_op (SecurityCycle now) st = security_cycle now st"

definition run_ops :: "guardian_op list \<Rightarrow> SecurityGuardian \<Rightarrow> py_error + SecurityGuardian" where
  "run_ops ops st = for_each apply_op ops st"

section \<open>Reference definitions and sample states\<close>

text \<open>
  Pruning as the specification words it: the \<open>max_outbound\<close> first peers in ascending
  order of latency, peers of equal latency in ascending order of identifier.
\<close>

definition spec_prune :: "NetworkBooster \<Rightarrow> (string, real) dict" where
  "spec_prune st =
     take (nat (max_outbound st)) (sort_key (\<lambda>(p, latency). (latency, p)) (peer_latencies st))"

text \<open>Sample booster states used to instantiate the theorems below.\<close>

definition tie_booster :: NetworkBooster where
  "tie_booster =
     \<lparr> metrics_history = [], peer_latencies = [(''b'', 10), (''a'', 10)], throughput_stats = [],
       congestion_detected = False, max_peers = 2, max_outbound = 1, max_inbound = 25 \<rparr>"

definition three_peers :: NetworkBooster where
  "three_peers =
     \<lparr> metrics_history = [], peer_latencies = [(''p1'', 30), (''p2'', 10), (''p3'', 20)],
       throughput_stats = [], congestion_detected = False,
       max_peers = 3, max_outbound = 2, max_inbound = 25 \<rparr>"

definition snapshot :: "real \<Rightarrow> NetworkMetrics" where
  "snapshot latency =
     \<lparr> metrics_timestamp = 0, connected_peers = 0, total_bandwidth_mbps = 0,
       avg_latency_ms = latency, blocks_synced_per_minute = 0, failed_connections = 0,
       successful_connections = 0, memory_usage_percent = 35, disk_usage_percent = 28 \<rparr>"

definition booster_with :: "real list \<Rightarrow> bool \<Rightarrow> NetworkBooster" where
  "booster_with latencies flag =
     \<lparr> metrics_history = map snapshot latencies, peer_latencies = [], throughput_stats = [],
       congestion_detected = flag, max_peers = 50, max_outbound = 25, max_inbound = 25 \<rparr>"

text \<open>
  The trust score as the specification words the recompute: 70% success rate minus 30% of
  the denial-of-service share, the share capped at 1.0, the result clamped to [0, 1].
\<close>

definition spec_trust_score :: "int \<Rightarrow> int \<Rightarrow> int \<Rightarrow> real" where
  "spec_trust_score successes failures dos =
     max 0 (min 1 (0.7 * (real_of_int successes / real_of_int (successes + failures))
                    - 0.3 * min (real_of_int dos / 10) 1.0))"

text \<open>Sample guardian states used to instantiate the theorems below.\<close>

definition sample_peer :: "string \<Rightarrow> string \<Rightarrow> real \<Rightarrow> PeerReputation" where
  "sample_peer pid ip trust = (new_PeerReputation pid ip 0)\<lparr>trust_score := trust\<rparr>"

definition guardian_with :: "(string, PeerReputation) dict \<Rightarrow> SecurityGuardian" where
  "guardian_with d =
     \<lparr> peer_reputation = d, blocked_ips = {}, security_events = [], connection_attempts = [],
       dos_threshold = 100, min_trust_score = 0.6, blacklist_duration_minutes = 60 \<rparr>"

definition flooding_peer :: PeerReputation where
  "flooding_peer = (sample_peer ''p'' ''10.0.0.1'' 0.5)\<lparr>successful_blocks := 1, dos_attempts := 10\<rparr>"

definition flood :: "nat \<Rightarrow> SecurityGuardian" where
  "flood n =
     (guardian_with [])\<lparr>connection_attempts := [(''10.0.0.1'', replicate n 0), (''10.0.0.2'', [0])]\<rparr>"

definition sybil_guardian :: SecurityGuardian where
  "sybil_guardian =
     guardian_with
       [(''a1'', sample_peer ''a1'' ''10.0.0.1'' 0.5), (''b1'', sample_peer ''b1'' ''10.0.0.2'' 0.5),
        (''a2'', sample_peer ''a2'' ''10.0.0.1'' 0.5), (''b2'', sample_peer ''b2'' ''10.0.0.2'' 0.5),
        (''a3'', sample_peer ''a3'' ''10.0.0.1'' 0.5), (''b3'', sample_peer ''b3'' ''10.0.0.2'' 0.5),
        (''a4'', sample_peer ''a4'' ''10.0.0.1'' 0.5), (''b4'', sample_peer ''b4'' ''10.0.0.2'' 0.5),
        (''a5'', sample_peer ''a5'' ''10.0.0.1'' 0.5), (''a6'', sample_peer ''a6'' ''10.0.0.1'' 0.9)]"

definition default_config :: guardian_config where
  "default_config =
     \<lparr> cfg_rate_limit_requests_per_second = None, cfg_minimum_trust_score = None,
       cfg_blacklist_duration_minutes = None \<rparr>"

definition sample_ops :: "guardian_op list" where
  "sample_ops =
     [RegisterPeer ''p'' ''10.0.0.1'' 0, RecordFailedValidation ''p'',
      RecordSuccessfulBlock ''p'' 5, UpdatePeerReputation 10]"

section \<open>Auxiliary notions for the proofs\<close>

text \<open>
  Whether an entry of \<open>connection_attempts\<close> is over the threshold at \<open>now\<close>, and the
  event \<open>dos_step\<close> appends for it.
\<close>

definition exceeds :: "datetime \<Rightarrow> int \<Rightarrow> string \<times> datetime list \<Rightarrow> bool" where
  "exceeds now threshold item = (int (length (recent_attempts now (snd item))) > threshold)"

definition dos_event_of :: "datetime \<Rightarrow> string \<times> datetime list \<Rightarrow> SecurityEvent" where
  "dos_event_of now item = dos_event now (fst item) (length (recent_attempts now (snd item)))"

text \<open>
  Notions for the Sybil pass: a peer whose current trust is below the configured minimum,
  a reputation with its trust halved, a registry whose trust scores all lie in [0, 1], two
  states that differ at most in reputations and events, the identifiers registered from an
  address, and the identifiers that occur in a grouping by address.
\<close>

definition low_trust :: "SecurityGuardian \<Rightarrow> string \<Rightarrow> bool" where
  "low_trust st p =
     (case map_of (peer_reputation st) p of
        None \<Rightarrow> False
      | Some reputation \<Rightarrow> trust_score reputation < min_trust_score st)"

definition halved :: "PeerReputation \<Rightarrow> PeerReputation" where
  "halved reputation = reputation\<lparr>trust_score := trust_score reputation * 0.5\<rparr>"

definition trust_bounded :: "(string, PeerReputation) dict \<Rightarrow> bool" where
  "trust_bounded d = list_all (\<lambda>(p, reputation). 0 \<le> trust_score reputation \<and> trust_score reputation \<le> 1) d"

definition same_config :: "SecurityGuardian \<Rightarrow> SecurityGuardian \<Rightarrow> bool" where
  "same_config st st' =
     (blocked_ips st' = blocked_ips st \<and> connection_attempts st' = connection_attempts st
      \<and> dos_threshold st' = dos_threshold st \<and> min_trust_score st' = min_trust_score st
      \<and> blacklist_duration_minutes st' = blacklist_duration_minutes st
      \<and> map fst (peer_reputation st') = map fst (peer_reputation st))"

definition peers_at :: "string \<Rightarrow> (string, PeerReputation) dict \<Rightarrow> string list" where
  "peers_at ip d = map fst (filter (\<lambda>(p, reputation). ip_address reputation = ip) d)"

definition group_peers :: "(string, string list) dict \<Rightarrow> string set" where
  "group_peers gs = \<Union> (set ` snd ` set gs)"

section \<open>Dictionaries, slices and stable sorting\<close>

lemma dict_set_fresh: "k \<notin> fst ` set d \<Longrightarrow> dict_set k v d = d @ [(k, v)]"
  by (induction d) auto

lemma foldl_dict_set_distinct:
  "distinct (map fst (d @ xs)) \<Longrightarrow> foldl (\<lambda>d (k, v). dict_set k v d) d xs = d @ xs"
proof (induction xs arbitrary: d)
  case Nil
  then show ?case by simp
next
  case (Cons x xs)
  obtain k v where x: "x = (k, v)" by (cases x)
  from Cons.prems have fresh: "k \<notin> fst ` set d" by (auto simp: x)
  from Cons.prems have "distinct (map fst ((d @ [(k, v)]) @ xs))" by (auto simp: x)
  from Cons.IH [OF this] show ?case by (simp add: x dict_set_fresh [OF fresh])
qed

lemma dict_from_items_distinct: "distinct (map fst xs) \<Longrightarrow> dict_from_items xs = xs"
  using foldl_dict_set_distinct [of "[]" xs] by (simp add: dict_from_items_def)

lemma distinct_fst_sort_key: "distinct (map fst xs) \<Longrightarrow> distinct (map fst (sort_key f xs))"
  by (metis distinct_map distinct_sort set_sort)

lemma prune_kept:
  assumes "distinct (map fst (peer_latencies st))" and "0 \<le> max_outbound st"
    and "int (length (peer_latencies st)) > max_outbound st"
  shows "peer_latencies (prune_poor_performers st) =
           take (nat (max_outbound st)) (sort_key snd (peer_latencies st))"
proof -
  have "distinct (map fst (take (nat (max_outbound st)) (sort_key snd (peer_latencies st))))"
    using distinct_fst_sort_key [OF assms(1), of snd] by (simp add: take_map [symmetric] distinct_take)
  then show ?thesis using assms(2,3)
    by (simp add: prune_poor_performers_def py_slice_to_def dict_from_items_distinct Let_def)
qed

lemma take_sorted_le:
  assumes "sorted (map f ys)" "x \<in> set (take n ys)" "y \<in> set (drop n ys)"
  shows "f x \<le> f y"
proof -
  have "sorted (map f (take n ys) @ map f (drop n ys))"
    using assms(1) by (simp add: map_append [symmetric] del: map_append)
  then show ?thesis using assms(2,3) by (auto simp: sorted_append)
qed

lemma filter_take_prefix:
  "filter P (take n ys) = take (length (filter P (take n ys))) (filter P ys)"
proof -
  have "filter P ys = filter P (take n ys) @ filter P (drop n ys)"
    by (metis append_take_drop_id filter_append)
  then show ?thesis by simp
qed

lemma map_of_dict_set: "map_of (dict_set k v d) = (map_of d)(k \<mapsto> v)"
  by (induction d) (auto simp: fun_eq_iff)

lemma set_dict_set_subset: "set (dict_set k v d) \<subseteq> insert (k, v) (set d)"
  by (induction d) (auto split: if_splits)

lemma keys_dict_set: "fst ` set (dict_set k v d) = insert k (fst ` set d)"
  by (simp add: dom_map_of_conv_image_fst [symmetric] map_of_dict_set)

lemma map_fst_dict_set: "k \<in> fst ` set d \<Longrightarrow> map fst (dict_set k v d) = map fst d"
  by (induction d) force+

lemma dict_get_Inr: "dict_get d k = Inr v \<longleftrightarrow> map_of d k = Some v"
  by (simp add: dict_get_def split: option.splits)

lemma dict_get_Inl: "dict_get d k = Inl e \<longleftrightarrow> map_of d k = None \<and> e = KeyError"
  by (auto simp: dict_get_def split: option.splits)

lemma map_of_map_values:
  "map_of (map (\<lambda>(k, v). (k, f v)) d) k = map_option f (map_of d k)"
  by (induction d) auto

lemma filter_key_distinct:
  "distinct (map fst xs) \<Longrightarrow> (k, v) \<in> set xs \<Longrightarrow> filter (\<lambda>x. fst x = k) xs = [(k, v)]"
proof (induction xs)
  case Nil
  then show ?case by simp
next
  case (Cons x xs)
  show ?case
  proof (cases "x = (k, v)")
    case True
    with Cons.prems(1) have "\<forall>y \<in> set xs. fst y \<noteq> k" by force
    then have "filter (\<lambda>x. fst x = k) xs = []" by (simp add: filter_empty_conv)
    with True show ?thesis by simp
  next
    case False
    with Cons.prems have in_xs: "(k, v) \<in> set xs" by simp
    then have "k \<in> fst ` set xs" by force
    with Cons.prems(1) have "fst x \<noteq> k" by auto
    with Cons.IH in_xs Cons.prems(1) show ?thesis by simp
  qed
qed

section \<open>Denial-of-service detection as a fold\<close>

lemma dos_step_fields:
  "dos_threshold (dos_step now st item) = dos_threshold st"
  "blocked_ips (dos_step now st item) =
     (if exceeds now (dos_threshold st) item then insert (fst item) (blocked_ips st)
      else blocked_ips st)"
  "security_events (dos_step now st item) =
     (if exceeds now (dos_threshold st) item then security_events st @ [dos_event_of now item]
      else security_events st)"
  "peer_reputation (dos_step now st item) = peer_reputation st"
  "min_trust_score (dos_step now st item) = min_trust_score st"
  by (cases item; simp add: dos_step_def Let_def block_ip_def exceeds_def dos_event_of_def)+

lemma dos_fold_fields:
  "dos_threshold (foldl (dos_step now) st items) = dos_threshold st"
  "blocked_ips (foldl (dos_step now) st items) =
     blocked_ips st \<union> fst ` set (filter (exceeds now (dos_threshold st)) items)"
  "security_events (foldl (dos_step now) st items) =
     security_events st @ map (dos_event_of now) (filter (exceeds now (dos_threshold st)) items)"
  "peer_reputation (foldl (dos_step now) st items) = peer_reputation st"
  "min_trust_score (foldl (dos_step now) st items) = min_trust_score st"
  by (induction items arbitrary: st; simp add: dos_step_fields)+

lemma dos_events_for_ip:
  assumes "distinct (map fst items)" and "(ip, timestamps) \<in> set items"
  shows "filter (\<lambda>e. event_peer_id e = ''ip_'' @ ip) (map (dos_event_of now) (filter Q items)) =
           (if Q (ip, timestamps) then [dos_event_of now (ip, timestamps)] else [])"
proof -
  have sel: "(\<lambda>e. event_peer_id e = ''ip_'' @ ip) \<circ> dos_event_of now = (\<lambda>x. fst x = ip)"
    by (rule ext) (simp add: dos_event_of_def dos_event_def)
  have "filter (\<lambda>e. event_peer_id e = ''ip_'' @ ip) (map (dos_event_of now) (filter Q items)) =
          map (dos_event_of now) (filter (\<lambda>x. fst x = ip) (filter Q items))"
    unfolding filter_map sel ..
  also have "filter (\<lambda>x. fst x = ip) (filter Q items) = filter Q (filter (\<lambda>x. fst x = ip) items)"
    by (simp add: conj_commute)
  finally show ?thesis by (simp add: filter_key_distinct [OF assms])
qed

section \<open>The Sybil pass\<close>

lemma key_of_map_of: "map_of d k = Some v \<Longrightarrow> k \<in> fst ` set d"
  by (metis map_of_eq_None_iff option.distinct(1))

lemma map_of_key: "k \<in> fst ` set d \<Longrightarrow> \<exists>v. map_of d k = Some v"
  by (cases "map_of d k") (auto simp: map_of_eq_None_iff)

lemma trust_bounded_dict_set:
  "trust_bounded d \<Longrightarrow> 0 \<le> trust_score v \<Longrightarrow> trust_score v \<le> 1 \<Longrightarrow> trust_bounded (dict_set k v d)"
  using set_dict_set_subset [of k v d] by (auto simp: trust_bounded_def list_all_iff)

lemma trust_bounded_lookup:
  "trust_bounded d \<Longrightarrow> map_of d k = Some v \<Longrightarrow> 0 \<le> trust_score v \<and> trust_score v \<le> 1"
  by (auto simp: trust_bounded_def list_all_iff dest: map_of_SomeD)

lemma suspicious_peers_filter:
  "suspicious_peers st ps = Inr sus \<Longrightarrow> sus = filter (low_trust st) ps"
proof (induction ps arbitrary: sus)
  case Nil
  then show ?case by simp
next
  case (Cons p ps)
  then show ?case
    by (auto simp: low_trust_def dict_get_def split: option.splits sum.splits if_splits)
qed

lemma suspicious_peers_total:
  "set ps \<subseteq> fst ` set (peer_reputation st) \<Longrightarrow> \<exists>sus. suspicious_peers st ps = Inr sus"
proof (induction ps)
  case Nil
  then show ?case by simp
next
  case (Cons p ps)
  then obtain sus where "suspicious_peers st ps = Inr sus" by auto
  moreover from Cons.prems obtain r where "map_of (peer_reputation st) p = Some r"
    using map_of_key [of p "peer_reputation st"] by auto
  ultimately show ?case by (simp add: dict_get_def)
qed

lemma reduce_trust_keys: "reduce_trust ps d = Inr d' \<Longrightarrow> map fst d' = map fst d"
proof (induction ps arbitrary: d)
  case Nil
  then show ?case by simp
next
  case (Cons p ps)
  from Cons.prems obtain r where r: "map_of d p = Some r"
    and rest: "reduce_trust ps (dict_set p (halved r) d) = Inr d'"
    by (auto simp: dict_get_def halved_def split: option.splits)
  from Cons.IH [OF rest] key_of_map_of [OF r] show ?case by (simp add: map_fst_dict_set)
qed

lemma reduce_trust_frame:
  "reduce_trust ps d = Inr d' \<Longrightarrow> q \<notin> set ps \<Longrightarrow> map_of d' q = map_of d q"
proof (induction ps arbitrary: d)
  case Nil
  then show ?case by simp
next
  case (Cons p ps)
  from Cons.prems obtain r where r: "map_of d p = Some r"
    and rest: "reduce_trust ps (dict_set p (halved r) d) = Inr d'"
    by (auto simp: dict_get_def halved_def split: option.splits)
  from Cons.IH [OF rest] Cons.prems(2) show ?case by (simp add: map_of_dict_set)
qed

lemma reduce_trust_halves:
  "reduce_trust ps d = Inr d' \<Longrightarrow> distinct ps \<Longrightarrow> q \<in> set ps \<Longrightarrow>
     map_of d' q = map_option halved (map_of d q)"
proof (induction ps arbitrary: d)
  case Nil
  then show ?case by simp
next
  case (Cons p ps)
  from Cons.prems obtain r where r: "map_of d p = Some r"
    and rest: "reduce_trust ps (dict_set p (halved r) d) = Inr d'"
    by (auto simp: dict_get_def halved_def split: option.splits)
  show ?case
  proof (cases "q = p")
    case True
    with Cons.prems(2) have "q \<notin> set ps" by simp
    from reduce_trust_frame [OF rest this] True r show ?thesis by (simp add: map_of_dict_set)
  next
    case False
    with Cons.prems have "distinct ps" "q \<in> set ps" by simp_all
    from Cons.IH [OF rest this] False show ?thesis by (simp add: map_of_dict_set)
  qed
qed

lemma reduce_trust_bounded:
  "reduce_trust ps d = Inr d' \<Longrightarrow> trust_bounded d \<Longrightarrow> trust_bounded d'"
proof (induction ps arbitrary: d)
  case Nil
  then show ?case by simp
next
  case (Cons p ps)
  from Cons.prems obtain r where r: "map_of d p = Some r"
    and rest: "reduce_trust ps (dict_set p (halved r) d) = Inr d'"
    by (auto simp: dict_get_def halved_def split: option.splits)
  from trust_bounded_lookup [OF Cons.prems(2) r]
  have "0 \<le> trust_score (halved r)" "trust_score (halved r) \<le> 1" by (simp_all add: halved_def)
  from trust_bounded_dict_set [OF Cons.prems(2) this] Cons.IH [OF rest] show ?case by simp
qed

lemma reduce_trust_total:
  "set ps \<subseteq> fst ` set d \<Longrightarrow> \<exists>d'. reduce_trust ps d = Inr d'"
proof (induction ps arbitrary: d)
  case Nil
  then show ?case by simp
next
  case (Cons p ps)
  from Cons.prems obtain r where r: "map_of d p = Some r"
    using map_of_key [of p d] by auto
  from Cons.prems have "set ps \<subseteq> fst ` set (dict_set p (r\<lparr>trust_score := trust_score r * 0.5\<rparr>) d)"
    by (auto simp: keys_dict_set)
  from Cons.IH [OF this] r show ?case by (simp add: dict_get_def)
qed

lemma sybil_step_cases:
  assumes "sybil_step now (ip, ps) st = Inr st'"
  obtains (quiet) "length (filter (low_trust st) ps) < 5" "st' = st"
  | (flagged) d' where "5 \<le> length (filter (low_trust st) ps)"
      "reduce_trust (filter (low_trust st) ps) (peer_reputation st) = Inr d'"
      "st' = st\<lparr>security_events :=
                   security_events st @ [sybil_event now ip (length (filter (low_trust st) ps))],
                 peer_reputation := d'\<rparr>"
proof -
  from assms obtain sus where sus: "suspicious_peers st ps = Inr sus"
    by (auto simp: sybil_step_def split: sum.splits)
  then have eq: "sus = filter (low_trust st) ps" by (rule suspicious_peers_filter)
  show thesis
  proof (cases "5 \<le> length sus")
    case True
    with assms sus obtain d' where "reduce_trust sus (peer_reputation st) = Inr d'"
      "st' = st\<lparr>security_events := security_events st @ [sybil_event now ip (length sus)],
                peer_reputation := d'\<rparr>"
      by (auto simp: sybil_step_def Let_def split: sum.splits)
    with True show thesis unfolding eq by (rule flagged)
  next
    case False
    with assms sus have "st' = st" by (simp add: sybil_step_def)
    with False show thesis unfolding eq by (intro quiet) simp_all
  qed
qed

lemma sybil_step_config: "sybil_step now (ip, ps) st = Inr st' \<Longrightarrow> same_config st st'"
  by (erule sybil_step_cases) (simp_all add: same_config_def reduce_trust_keys)

lemma sybil_step_frame:
  "sybil_step now (ip, ps) st = Inr st' \<Longrightarrow> q \<notin> set ps \<Longrightarrow>
     map_of (peer_reputation st') q = map_of (peer_reputation st) q"
  by (erule sybil_step_cases) (simp_all add: reduce_trust_frame)

lemma sybil_step_events:
  "sybil_step now (ip, ps) st = Inr st' \<Longrightarrow>
     \<exists>evs. security_events st' = security_events st @ evs \<and> (\<forall>e \<in> set evs. event_peer_id e = ip)"
  by (erule sybil_step_cases) (simp_all add: sybil_event_def)

lemma sybil_step_bounded:
  "sybil_step now (ip, ps) st = Inr st' \<Longrightarrow> trust_bounded (peer_reputation st) \<Longrightarrow>
     trust_bounded (peer_reputation st')"
  by (erule sybil_step_cases) (simp_all add: reduce_trust_bounded)

lemma sybil_step_total:
  assumes "set ps \<subseteq> fst ` set (peer_reputation st)"
  shows "\<exists>st'. sybil_step now (ip, ps) st = Inr st'"
proof -
  from suspicious_peers_total [OF assms] obtain sus where sus: "suspicious_peers st ps = Inr sus"
    by blast
  then have "sus = filter (low_trust st) ps" by (rule suspicious_peers_filter)
  with assms have "set sus \<subseteq> fst ` set (peer_reputation st)" by auto
  from reduce_trust_total [OF this] obtain d' where "reduce_trust sus (peer_reputation st) = Inr d'"
    by blast
  with sus show ?thesis by (simp add: sybil_step_def Let_def)
qed

lemma for_each_append:
  "for_each body (xs @ ys) s =
     (case for_each body xs s of Inl e \<Rightarrow> Inl e | Inr s' \<Rightarrow> for_each body ys s')"
  by (induction xs arbitrary: s) (auto split: sum.splits)

lemma same_config_trans: "same_config a b \<Longrightarrow> same_config b c \<Longrightarrow> same_config a c"
  by (simp add: same_config_def)

lemma sybil_loop_config:
  "for_each (sybil_step now) gs st = Inr st' \<Longrightarrow> same_config st st'"
proof (induction gs arbitrary: st)
  case Nil
  then show ?case by (simp add: same_config_def)
next
  case (Cons g gs)
  obtain ip ps where g: "g = (ip, ps)" by (cases g)
  from Cons.prems obtain st1 where st1: "sybil_step now (ip, ps) st = Inr st1"
    and rest: "for_each (sybil_step now) gs st1 = Inr st'"
    by (auto simp: g split: sum.splits)
  from sybil_step_config [OF st1] Cons.IH [OF rest] show ?case by (rule same_config_trans)
qed

lemma sybil_loop_frame:
  "for_each (sybil_step now) gs st = Inr st' \<Longrightarrow> q \<notin> group_peers gs \<Longrightarrow>
     map_of (peer_reputation st') q = map_of (peer_reputation st) q"
proof (induction gs arbitrary: st)
  case Nil
  then show ?case by simp
next
  case (Cons g gs)
  obtain ip ps where g: "g = (ip, ps)" by (cases g)
  from Cons.prems(1) obtain st1 where st1: "sybil_step now (ip, ps) st = Inr st1"
    and rest: "for_each (sybil_step now) gs st1 = Inr st'"
    by (auto simp: g split: sum.splits)
  from Cons.prems(2) have q: "q \<notin> set ps" "q \<notin> group_peers gs"
    by (auto simp: g group_peers_def)
  from Cons.IH [OF rest q(2)] sybil_step_frame [OF st1 q(1)] show ?case by simp
qed

lemma sybil_loop_events:
  "for_each (sybil_step now) gs st = Inr st' \<Longrightarrow>
     \<exists>evs. security_events st' = security_events st @ evs
          \<and> (\<forall>e \<in> set evs. event_peer_id e \<in> fst ` set gs)"
proof (induction gs arbitrary: st)
  case Nil
  then show ?case by simp
next
  case (Cons g gs)
  obtain ip ps where g: "g = (ip, ps)" by (cases g)
  from Cons.prems(1) obtain st1 where st1: "sybil_step now (ip, ps) st = Inr st1"
    and rest: "for_each (sybil_step now) gs st1 = Inr st'"
    by (auto simp: g split: sum.splits)
  from sybil_step_events [OF st1] obtain evs1
    where e1: "security_events st1 = security_events st @ evs1" "\<forall>e \<in> set evs1. event_peer_id e = ip"
    by blast
  from Cons.IH [OF rest] obtain evs2
    where e2: "security_events st' = security_events st1 @ evs2"
      "\<forall>e \<in> set evs2. event_peer_id e \<in> fst ` set gs"
    by blast
  have "security_events st' = security_events st @ (evs1 @ evs2)" by (simp add: e1 e2)
  moreover have "\<forall>e \<in> set (evs1 @ evs2). event_peer_id e \<in> fst ` set (g # gs)"
    using e1(2) e2(2) by (auto simp: g)
  ultimately show ?case by blast
qed

lemma sybil_loop_bounded:
  "for_each (sybil_step now) gs st = Inr st' \<Longrightarrow> trust_bounded (peer_reputation st) \<Longrightarrow>
     trust_bounded (peer_reputation st')"
proof (induction gs arbitrary: st)
  case Nil
  then show ?case by simp
next
  case (Cons g gs)
  obtain ip ps where g: "g = (ip, ps)" by (cases g)
  from Cons.prems(1) obtain st1 where st1: "sybil_step now (ip, ps) st = Inr st1"
    and rest: "for_each (sybil_step now) gs st1 = Inr st'"
    by (auto simp: g split: sum.splits)
  from Cons.IH [OF rest sybil_step_bounded [OF st1 Cons.prems(2)]] show ?case .
qed

lemma sybil_loop_total:
  "group_peers gs \<subseteq> fst ` set (peer_reputation st) \<Longrightarrow>
     \<exists>st'. for_each (sybil_step now) gs st = Inr st'"
proof (induction gs arbitrary: st)
  case Nil
  then show ?case by simp
next
  case (Cons g gs)
  obtain ip ps where g: "g = (ip, ps)" by (cases g)
  from Cons.prems have sub: "set ps \<subseteq> fst ` set (peer_reputation st)"
    "group_peers gs \<subseteq> fst ` set (peer_reputation st)"
    by (auto simp: g group_peers_def)
  from sybil_step_total [OF sub(1)] obtain st1 where st1: "sybil_step now (ip, ps) st = Inr st1"
    by blast
  from sybil_step_config [OF st1] have "fst ` set (peer_reputation st1) = fst ` set (peer_reputation st)"
    by (metis same_config_def set_map)
  with sub(2) have "group_peers gs \<subseteq> fst ` set (peer_reputation st1)" by simp
  from Cons.IH [OF this] st1 show ?case by (simp add: g)
qed

lemma set_set_add: "set (set_add x xs) = insert x (set xs)"
  by (auto simp: set_add_def)

lemma group_peers_dict_set: "group_peers (dict_set k v G) \<subseteq> set v \<union> group_peers G"
proof
  fix x assume "x \<in> group_peers (dict_set k v G)"
  then obtain a b where ab: "(a, b) \<in> set (dict_set k v G)" and xb: "x \<in> set b"
    by (auto simp: group_peers_def)
  from ab set_dict_set_subset [of k v G] have "(a, b) = (k, v) \<or> (a, b) \<in> set G" by auto
  then show "x \<in> set v \<union> group_peers G"
  proof
    assume "(a, b) = (k, v)"
    with xb show ?thesis by simp
  next
    assume "(a, b) \<in> set G"
    with xb have "x \<in> group_peers G" by (force simp: group_peers_def)
    then show ?thesis by simp
  qed
qed

lemma group_peers_add:
  "group_peers (ip_to_peers_add G (p, r)) \<subseteq> insert p (group_peers G)"
proof (cases "map_of G (ip_address r)")
  case None
  then show ?thesis
    using group_peers_dict_set [of "ip_address r" "set_add p []" G]
    by (auto simp: ip_to_peers_add_def set_set_add)
next
  case (Some ps)
  then have "(ip_address r, ps) \<in> set G" by (rule map_of_SomeD)
  then have "set ps \<subseteq> group_peers G" by (force simp: group_peers_def)
  then show ?thesis
    using Some group_peers_dict_set [of "ip_address r" "set_add p ps" G]
    by (auto simp: ip_to_peers_add_def set_set_add)
qed

lemma group_peers_ip_to_peers:
  "group_peers (foldl ip_to_peers_add [] d) \<subseteq> fst ` set d"
proof (induction d rule: rev_induct)
  case Nil
  then show ?case by (simp add: group_peers_def)
next
  case (snoc x d)
  obtain p r where x: "x = (p, r)" by (cases x)
  from group_peers_add [of "foldl ip_to_peers_add [] d" p r] snoc.IH
  show ?case by (auto simp: x)
qed

lemma set_peers_at: "set (peers_at ip d) = {p. \<exists>r. (p, r) \<in> set d \<and> ip_address r = ip}"
  by (force simp: peers_at_def)

lemma ip_to_peers_char:
  assumes "distinct (map fst d)"
  shows "distinct (map fst (foldl ip_to_peers_add [] d))
       \<and> (\<forall>ip. map_of (foldl ip_to_peers_add [] d) ip =
                 (if peers_at ip d = [] then None else Some (peers_at ip d)))"
  using assms
proof (induction d rule: rev_induct)
  case Nil
  then show ?case by (simp add: peers_at_def)
next
  case (snoc x d)
  obtain p r where x: "x = (p, r)" by (cases x)
  let ?G = "foldl ip_to_peers_add [] d"
  let ?a = "ip_address r"
  from snoc.prems have dist: "distinct (map fst d)" and fresh: "p \<notin> fst ` set d" by (auto simp: x)
  from snoc.IH [OF dist] have dG: "distinct (map fst ?G)"
    and mG: "\<And>ip. map_of ?G ip = (if peers_at ip d = [] then None else Some (peers_at ip d))"
    by simp_all
  have pa: "peers_at ip (d @ [(p, r)]) = (if ip = ?a then peers_at ip d @ [p] else peers_at ip d)" for ip
    by (simp add: peers_at_def)
  have notin: "p \<notin> set (peers_at ?a d)" using fresh by (force simp: set_peers_at)
  show ?case
  proof (cases "peers_at ?a d = []")
    case True
    then have none: "map_of ?G ?a = None" by (simp add: mG)
    then have nk: "?a \<notin> fst ` set ?G" by (simp add: map_of_eq_None_iff)
    have G': "foldl ip_to_peers_add [] (d @ [(p, r)]) = ?G @ [(?a, [p])]"
      by (simp add: ip_to_peers_add_def none set_add_def dict_set_fresh [OF nk])
    have "distinct (map fst (?G @ [(?a, [p])]))" using dG nk by simp
    moreover have "map_of (?G @ [(?a, [p])]) ip =
        (if peers_at ip (d @ [(p, r)]) = [] then None else Some (peers_at ip (d @ [(p, r)])))" for ip
      using True by (simp add: pa mG map_add_def split: option.splits)
    ultimately show ?thesis unfolding x G' by blast
  next
    case False
    then have some: "map_of ?G ?a = Some (peers_at ?a d)" by (simp add: mG)
    then have k: "?a \<in> fst ` set ?G" by (rule key_of_map_of)
    have G': "foldl ip_to_peers_add [] (d @ [(p, r)]) = dict_set ?a (peers_at ?a d @ [p]) ?G"
      using notin by (simp add: ip_to_peers_add_def some set_add_def)
    have "distinct (map fst (dict_set ?a (peers_at ?a d @ [p]) ?G))"
      using dG by (simp add: map_fst_dict_set [OF k])
    moreover have "map_of (dict_set ?a (peers_at ?a d @ [p]) ?G) ip =
        (if peers_at ip (d @ [(p, r)]) = [] then None else Some (peers_at ip (d @ [(p, r)])))" for ip
      by (simp add: pa mG map_of_dict_set)
    ultimately show ?thesis unfolding x G' by blast
  qed
qed

lemma groups_disjoint:
  assumes dist: "distinct (map fst d)"
    and g: "(ip', ps') \<in> set (foldl ip_to_peers_add [] d)"
    and ne: "ip' \<noteq> ip" and q: "q \<in> set ps'"
  shows "q \<notin> set (peers_at ip d)"
proof
  assume q0: "q \<in> set (peers_at ip d)"
  from ip_to_peers_char [OF dist] have dG: "distinct (map fst (foldl ip_to_peers_add [] d))"
    and mG: "map_of (foldl ip_to_peers_add [] d) ip' =
               (if peers_at ip' d = [] then None else Some (peers_at ip' d))"
    by simp_all
  from map_of_is_SomeI [OF dG g] mG have "ps' = peers_at ip' d"
    by (simp split: if_splits)
  with q obtain r' where r': "(q, r') \<in> set d" "ip_address r' = ip'" by (auto simp: set_peers_at)
  from q0 obtain r where r: "(q, r) \<in> set d" "ip_address r = ip" by (auto simp: set_peers_at)
  from dist r(1) r'(1) have "r = r'" by (rule eq_key_imp_eq_value)
  with r(2) r'(2) ne show False by simp
qed

lemma low_trust_filter:
  assumes "distinct (map fst (peer_reputation st))"
  shows "filter (low_trust st) (peers_at ip (peer_reputation st)) =
           map fst (filter (\<lambda>(p, r). ip_address r = ip \<and> trust_score r < min_trust_score st)
                      (peer_reputation st))"
proof -
  have "filter (low_trust st) (peers_at ip (peer_reputation st)) =
          map fst (filter (\<lambda>x. ip_address (snd x) = ip \<and> low_trust st (fst x)) (peer_reputation st))"
    by (simp add: peers_at_def filter_map o_def case_prod_unfold conj_commute)
  also have "filter (\<lambda>x. ip_address (snd x) = ip \<and> low_trust st (fst x)) (peer_reputation st) =
             filter (\<lambda>(p, r). ip_address r = ip \<and> trust_score r < min_trust_score st)
               (peer_reputation st)"
  proof (rule filter_cong [OF refl])
    fix x assume mem: "x \<in> set (peer_reputation st)"
    obtain q r where x: "x = (q, r)" by (cases x)
    from mem have "map_of (peer_reputation st) q = Some r"
      unfolding x by (rule map_of_is_SomeI [OF assms])
    then show "(ip_address (snd x) = ip \<and> low_trust st (fst x)) =
               (case x of (p, r) \<Rightarrow> ip_address r = ip \<and> trust_score r < min_trust_score st)"
      by (simp add: x low_trust_def)
  qed
  finally show ?thesis .
qed

lemma sybil_target:
  assumes dist: "distinct (map fst (peer_reputation st))"
    and run: "detect_sybil_attacks now st = Inr st'"
    and some: "peers_at ip (peer_reputation st) \<noteq> []"
  obtains evs1 evs3 :: "SecurityEvent list" and st2 :: SecurityGuardian where
    "\<forall>e \<in> set evs1. event_peer_id e \<noteq> ip" "\<forall>e \<in> set evs3. event_peer_id e \<noteq> ip"
    "\<forall>q \<in> set (peers_at ip (peer_reputation st)).
       map_of (peer_reputation st') q = map_of (peer_reputation st2) q"
    "5 \<le> length (filter (low_trust st) (peers_at ip (peer_reputation st))) \<Longrightarrow>
       security_events st' =
         security_events st @ evs1
           @ [sybil_event now ip (length (filter (low_trust st) (peers_at ip (peer_reputation st))))]
           @ evs3"
    "5 \<le> length (filter (low_trust st) (peers_at ip (peer_reputation st))) \<Longrightarrow>
       \<forall>q \<in> set (filter (low_trust st) (peers_at ip (peer_reputation st))).
         map_of (peer_reputation st2) q = map_option halved (map_of (peer_reputation st) q)"
    "5 \<le> length (filter (low_trust st) (peers_at ip (peer_reputation st))) \<Longrightarrow>
       \<forall>q \<in> set (peers_at ip (peer_reputation st))
             - set (filter (low_trust st) (peers_at ip (peer_reputation st))).
         map_of (peer_reputation st2) q = map_of (peer_reputation st) q"
    "\<not> 5 \<le> length (filter (low_trust st) (peers_at ip (peer_reputation st))) \<Longrightarrow>
       security_events st' = security_events st @ evs1 @ evs3"
    "\<not> 5 \<le> length (filter (low_trust st) (peers_at ip (peer_reputation st))) \<Longrightarrow>
       \<forall>q \<in> set (peers_at ip (peer_reputation st)).
         map_of (peer_reputation st2) q = map_of (peer_reputation st) q"
proof -
  let ?d = "peer_reputation st"
  let ?gs = "foldl ip_to_peers_add [] ?d"
  let ?ps = "peers_at ip ?d"
  let ?S = "filter (low_trust st) ?ps"
  from ip_to_peers_char [OF dist] have dG: "distinct (map fst ?gs)"
    and mG: "map_of ?gs ip = Some ?ps"
    using some by simp_all
  from mG have "(ip, ?ps) \<in> set ?gs" by (rule map_of_SomeD)
  then obtain pre post where split: "?gs = pre @ (ip, ?ps) # post" by (auto dest: split_list)
  from dG have npre: "ip \<notin> fst ` set pre" and npost: "ip \<notin> fst ` set post"
    unfolding split by auto
  from run have "for_each (sybil_step now) (pre @ (ip, ?ps) # post) st = Inr st'"
    by (simp add: detect_sybil_attacks_def ip_to_peers_def split)
  then obtain st1 st2 where r1: "for_each (sybil_step now) pre st = Inr st1"
    and r2: "sybil_step now (ip, ?ps) st1 = Inr st2"
    and r3: "for_each (sybil_step now) post st2 = Inr st'"
    by (auto simp: for_each_append split: sum.splits)
  have disj: "q \<notin> group_peers pre \<and> q \<notin> group_peers post" if q: "q \<in> set ?ps" for q
  proof -
    have "q \<notin> set ps'" if g: "(ip', ps') \<in> set pre \<or> (ip', ps') \<in> set post" for ip' ps'
    proof
      assume q': "q \<in> set ps'"
      from g have in_gs: "(ip', ps') \<in> set ?gs" unfolding split by auto
      from g npre npost have "ip' \<noteq> ip" by force
      from groups_disjoint [OF dist in_gs this q'] q show False by simp
    qed
    then have "\<forall>g \<in> set pre \<union> set post. q \<notin> set (snd g)" by force
    then show ?thesis unfolding group_peers_def by blast
  qed
  from sybil_loop_events [OF r1] obtain evs1
    where e1: "security_events st1 = security_events st @ evs1"
      and p1: "\<forall>e \<in> set evs1. event_peer_id e \<in> fst ` set pre"
    by blast
  from sybil_loop_events [OF r3] obtain evs3
    where e3: "security_events st' = security_events st2 @ evs3"
      and p3: "\<forall>e \<in> set evs3. event_peer_id e \<in> fst ` set post"
    by blast
  from p1 npre have n1: "\<forall>e \<in> set evs1. event_peer_id e \<noteq> ip" by auto
  from p3 npost have n3: "\<forall>e \<in> set evs3. event_peer_id e \<noteq> ip" by auto
  have same1: "map_of (peer_reputation st1) q = map_of ?d q" if "q \<in> set ?ps" for q
    using sybil_loop_frame [OF r1] disj [OF that] by simp
  have same3: "map_of (peer_reputation st') q = map_of (peer_reputation st2) q"
    if "q \<in> set ?ps" for q
    using sybil_loop_frame [OF r3] disj [OF that] by simp
  from sybil_loop_config [OF r1] have min1: "min_trust_score st1 = min_trust_score st"
    by (simp add: same_config_def)
  have S1: "filter (low_trust st1) ?ps = ?S"
    by (rule filter_cong [OF refl]) (simp add: low_trust_def same1 min1 split: option.splits)
  have dps: "distinct ?ps"
    unfolding peers_at_def using dist by (rule distinct_map_filter)
  then have dS: "distinct ?S" by simp
  have all3: "\<forall>q \<in> set ?ps. map_of (peer_reputation st') q = map_of (peer_reputation st2) q"
    using same3 by blast
  show thesis
  proof (cases "5 \<le> length ?S")
    case True
    from r2 obtain d' where red: "reduce_trust ?S (peer_reputation st1) = Inr d'"
      and st2: "st2 = st1\<lparr>security_events := security_events st1 @ [sybil_event now ip (length ?S)],
                            peer_reputation := d'\<rparr>"
      using True by (cases rule: sybil_step_cases) (simp_all add: S1)
    have ev: "security_events st' =
                security_events st @ evs1 @ [sybil_event now ip (length ?S)] @ evs3"
      by (simp add: e3 st2 e1)
    have hal: "map_of (peer_reputation st2) q = map_option halved (map_of ?d q)"
      if "q \<in> set ?S" for q
      using reduce_trust_halves [OF red dS that] same1 [of q] that by (simp add: st2)
    have oth: "map_of (peer_reputation st2) q = map_of ?d q"
      if "q \<in> set ?ps - set ?S" for q
      using reduce_trust_frame [OF red, of q] same1 [of q] that by (simp add: st2)
    show thesis
    proof (rule that [of evs1 evs3 st2])
      show "\<forall>q \<in> set ?S. map_of (peer_reputation st2) q = map_option halved (map_of ?d q)"
        using hal by blast
      show "\<forall>q \<in> set ?ps - set ?S. map_of (peer_reputation st2) q = map_of ?d q"
        using oth by blast
    qed (use True n1 n3 all3 ev in simp_all)
  next
    case False
    from r2 have st2: "st2 = st1"
      using False by (cases rule: sybil_step_cases) (simp_all add: S1)
    have ev: "security_events st' = security_events st @ evs1 @ evs3"
      by (simp add: e3 st2 e1)
    show thesis
    proof (rule that [of evs1 evs3 st2])
      show "\<forall>q \<in> set ?ps. map_of (peer_reputation st2) q = map_of ?d q"
        using same1 by (simp add: st2)
    qed (use False n1 n3 all3 ev in simp_all)
  qed
qed

lemma detect_sybil_attacks_total: "\<exists>st'. detect_sybil_attacks now st = Inr st'"
  unfolding detect_sybil_attacks_def ip_to_peers_def
  by (rule sybil_loop_total) (rule group_peers_ip_to_peers)

lemma filter_none: "\<forall>e \<in> set evs. event_peer_id e \<noteq> ip \<Longrightarrow> filter (\<lambda>e. event_peer_id e = ip) evs = []"
  by (simp add: filter_empty_conv)

section \<open>Invariants of the guardian's operations\<close>

lemma eclipse_loop_bounded:
  "trust_bounded d \<Longrightarrow> trust_bounded (fst (eclipse_loop now d))"
  by (induction d) (auto simp: trust_bounded_def split: prod.splits)

lemma vdf_loop_bounded:
  "trust_bounded d \<Longrightarrow> trust_bounded (fst (vdf_loop now d))"
  by (induction d) (auto simp: trust_bounded_def Let_def split: prod.splits)

lemma update_reputation_bounded:
  assumes "0 \<le> trust_score r" "trust_score r \<le> 1"
  shows "0 \<le> trust_score (update_reputation now r) \<and> trust_score (update_reputation now r) \<le> 1"
proof (cases "blocked r")
  case True
  then show ?thesis using assms by (auto simp: update_reputation_def split: option.splits)
next
  case False
  define score where "score =
     real_of_int (successful_blocks r) / real_of_int (successful_blocks r + failed_validations r) * 0.7
       + min (real_of_int (dos_attempts r) / 10) 0.3 * (- 0.3)"
  define scored where "scored =
     (if successful_blocks r + failed_validations r > 0
      then r\<lparr>trust_score := max 0.0 (min 1.0 score)\<rparr> else r)"
  have sb: "0 \<le> trust_score scored" "trust_score scored \<le> 1"
    using assms by (simp_all add: scored_def)
  have "update_reputation now r =
          (if total_seconds (now - last_seen scored) / 3600 > 24
           then scored\<lparr>trust_score := trust_score scored * 0.9\<rparr> else scored)"
    using False by (simp add: update_reputation_def scored_def score_def Let_def)
  then show ?thesis using sb by auto
qed

lemma update_peer_reputation_bounded:
  "trust_bounded (peer_reputation st) \<Longrightarrow> trust_bounded (peer_reputation (update_peer_reputation now st))"
  using update_reputation_bounded
  by (auto simp: update_peer_reputation_def trust_bounded_def list_all_iff)

lemma register_peer_bounded:
  "trust_bounded (peer_reputation st) \<Longrightarrow> trust_bounded (peer_reputation (register_peer pid ip now st))"
  by (simp add: register_peer_def trust_bounded_dict_set new_PeerReputation_def)

lemma record_successful_block_bounded:
  "trust_bounded (peer_reputation st) \<Longrightarrow>
     trust_bounded (peer_reputation (record_successful_block pid now st))"
proof (cases "map_of (peer_reputation st) pid")
  case None
  then show "trust_bounded (peer_reputation st) \<Longrightarrow> ?thesis"
    by (simp add: record_successful_block_def)
next
  case (Some r)
  assume b: "trust_bounded (peer_reputation st)"
  from trust_bounded_lookup [OF b Some] b Some show ?thesis
    by (simp add: record_successful_block_def trust_bounded_dict_set)
qed

lemma record_failed_validation_bounded:
  "trust_bounded (peer_reputation st) \<Longrightarrow>
     trust_bounded (peer_reputation (record_failed_validation pid st))"
proof (cases "map_of (peer_reputation st) pid")
  case None
  then show "trust_bounded (peer_reputation st) \<Longrightarrow> ?thesis"
    by (simp add: record_failed_validation_def)
next
  case (Some r)
  assume b: "trust_bounded (peer_reputation st)"
  from trust_bounded_lookup [OF b Some] b Some show ?thesis
    by (simp add: record_failed_validation_def trust_bounded_dict_set)
qed

lemma detect_sybil_attacks_bounded:
  "detect_sybil_attacks now st = Inr st' \<Longrightarrow> trust_bounded (peer_reputation st) \<Longrightarrow>
     trust_bounded (peer_reputation st')"
  unfolding detect_sybil_attacks_def by (rule sybil_loop_bounded)

lemma detect_dos_attacks_reputation:
  "peer_reputation (detect_dos_attacks now st) = peer_reputation st"
  by (simp add: detect_dos_attacks_def dos_fold_fields)

lemma security_cycle_bounded:
  assumes "trust_bounded (peer_reputation st)"
  shows "\<exists>st'. security_cycle now st = Inr st' \<and> trust_bounded (peer_reputation st')"
proof -
  from detect_sybil_attacks_total obtain st1
    where st1: "detect_sybil_attacks now (detect_dos_attacks now st) = Inr st1" by blast
  from assms have "trust_bounded (peer_reputation (detect_dos_attacks now st))"
    by (simp add: detect_dos_attacks_reputation)
  from detect_sybil_attacks_bounded [OF st1 this] have b1: "trust_bounded (peer_reputation st1)" .
  then have "trust_bounded (peer_reputation (detect_eclipse_attacks now st1))"
    using eclipse_loop_bounded [of "peer_reputation st1" now]
    by (auto simp: detect_eclipse_attacks_def split: prod.splits)
  then have "trust_bounded (peer_reputation (detect_vdf_manipulation now (detect_eclipse_attacks now st1)))"
    using vdf_loop_bounded [of "peer_reputation (detect_eclipse_attacks now st1)" now]
    by (auto simp: detect_vdf_manipulation_def split: prod.splits)
  then have "trust_bounded (peer_reputation (update_peer_reputation now
               (detect_vdf_manipulation now (detect_eclipse_attacks now st1))))"
    by (rule update_peer_reputation_bounded)
  then show ?thesis by (simp add: security_cycle_def st1 cleanup_expired_blocks_def)
qed

lemma apply_op_bounded:
  assumes "trust_bounded (peer_reputation st)"
  shows "\<exists>st'. apply_op op st = Inr st' \<and> trust_bounded (peer_reputation st')"
proof (cases op)
  case (RegisterPeer pid ip now)
  then show ?thesis using assms by (simp add: register_peer_bounded)
next
  case (RecordSuccessfulBlock pid now)
  then show ?thesis using assms by (simp add: record_successful_block_bounded)
next
  case (RecordFailedValidation pid)
  then show ?thesis using assms by (simp add: record_failed_validation_bounded)
next
  case (RecordConnectionAttempt ip now)
  then show ?thesis using assms by (simp add: record_connection_attempt_def)
next
  case (BlockIp ip reason duration)
  then show ?thesis using assms by (simp add: block_ip_def)
next
  case (DetectDos now)
  then show ?thesis using assms by (simp add: detect_dos_attacks_reputation)
next
  case (DetectSybil now)
  from detect_sybil_attacks_total obtain st' where "detect_sybil_attacks now st = Inr st'" by blast
  with detect_sybil_attacks_bounded [OF this assms] DetectSybil show ?thesis by simp
next
  case (DetectEclipse now)
  then show ?thesis using assms eclipse_loop_bounded [of "peer_reputation st" now]
    by (auto simp: detect_eclipse_attacks_def split: prod.splits)
next
  case (DetectVdf now)
  then show ?thesis using assms vdf_loop_bounded [of "peer_reputation st" now]
    by (auto simp: detect_vdf_manipulation_def split: prod.splits)
next
  case (UpdatePeerReputation now)
  then show ?thesis using assms by (simp add: update_peer_reputation_bounded)
next
  case (CleanupExpiredBlocks now)
  then show ?thesis using assms by (simp add: cleanup_expired_blocks_def)
next
  case (SecurityCycle now)
  then show ?thesis using security_cycle_bounded [OF assms] by simp
qed

lemma run_ops_bounded:
  "trust_bounded (peer_reputation st) \<Longrightarrow>
     \<exists>st'. run_ops ops st = Inr st' \<and> trust_bounded (peer_reputation st')"
proof (induction ops arbitrary: st)
  case Nil
  then show ?case by (simp add: run_ops_def)
next
  case (Cons op ops)
  from apply_op_bounded [OF Cons.prems] obtain st1
    where st1: "apply_op op st = Inr st1" "trust_bounded (peer_reputation st1)" by blast
  from Cons.IH [OF st1(2)] st1(1) show ?case by (simp add: run_ops_def)
qed

lemma eclipse_fields:
  "blocked_ips (detect_eclipse_attacks now st) = blocked_ips st"
  by (simp add: detect_eclipse_attacks_def split: prod.splits)

lemma vdf_fields:
  "blocked_ips (detect_vdf_manipulation now st) = blocked_ips st"
  by (simp add: detect_vdf_manipulation_def split: prod.splits)

lemma detect_sybil_attacks_blocked:
  "detect_sybil_attacks now st = Inr st' \<Longrightarrow> blocked_ips st' = blocked_ips st"
  unfolding detect_sybil_attacks_def by (drule sybil_loop_config) (simp add: same_config_def)

lemma detect_dos_attacks_blocked: "blocked_ips st \<subseteq> blocked_ips (detect_dos_attacks now st)"
  by (simp add: detect_dos_attacks_def dos_fold_fields)

lemma security_cycle_blocked:
  "security_cycle now st = Inr st' \<Longrightarrow> blocked_ips st' = blocked_ips (detect_dos_attacks now st)"
  by (auto simp: security_cycle_def cleanup_expired_blocks_def update_peer_reputation_def
      vdf_fields eclipse_fields detect_sybil_attacks_blocked split: sum.splits)

lemma security_cycle_total: "\<exists>st'. security_cycle now st = Inr st'"
  using detect_sybil_attacks_total [of now "detect_dos_attacks now st"]
  by (auto simp: security_cycle_def)

lemma apply_op_total: "\<exists>st'. apply_op op st = Inr st'"
  by (cases op) (simp_all add: detect_sybil_attacks_total security_cycle_total)

lemma apply_op_blocked: "apply_op op st = Inr st' \<Longrightarrow> blocked_ips st \<subseteq> blocked_ips st'"
proof (cases op)
  case (DetectDos now)
  then show "apply_op op st = Inr st' \<Longrightarrow> ?thesis"
    using detect_dos_attacks_blocked [of st now] by auto
next
  case (DetectSybil now)
  then show "apply_op op st = Inr st' \<Longrightarrow> ?thesis"
    by (simp add: detect_sybil_attacks_blocked)
next
  case (SecurityCycle now)
  then show "apply_op op st = Inr st' \<Longrightarrow> ?thesis"
    using detect_dos_attacks_blocked [of st now] by (simp add: security_cycle_blocked)
qed (auto simp: register_peer_def record_successful_block_def record_failed_validation_def
      record_connection_attempt_def block_ip_def eclipse_fields vdf_fields
      update_peer_reputation_def cleanup_expired_blocks_def split: option.splits)

lemma run_ops_blocked:
  "\<exists>st'. run_ops ops st = Inr st' \<and> blocked_ips st \<subseteq> blocked_ips st'"
proof (induction ops arbitrary: st)
  case Nil
  then show ?case by (simp add: run_ops_def)
next
  case (Cons op ops)
  from apply_op_total obtain st1 where st1: "apply_op op st = Inr st1" by blast
  from Cons.IH [of st1] obtain st' where st': "run_ops ops st1 = Inr st'"
    "blocked_ips st1 \<subseteq> blocked_ips st'" by blast
  from apply_op_blocked [OF st1] st' st1 show ?case by (auto simp: run_ops_def)
qed

section \<open>Network booster: properties\<close>

text \<open>
  C5. Congestion detection is a no-op while fewer than five snapshots exist.  Otherwise it
  looks at the latest five snapshots only: a mean \<open>avg_latency_ms\<close> above 500 sets the
  congestion flag, a mean below 200 clears it, and a mean from 200 to 500 leaves the state
  as it was.  The call never fails.
\<close>

theorem detect_congestion_hysteresis:
  "(length (metrics_history st) < 5 \<longrightarrow> detect_congestion st = Inr st)
   \<and> (metrics_history st = hs @ [m1, m2, m3, m4, m5] \<longrightarrow>
        (let mean = (avg_latency_ms m1 + avg_latency_ms m2 + avg_latency_ms m3
                      + avg_latency_ms m4 + avg_latency_ms m5) / 5
         in (mean > 500 \<longrightarrow> detect_congestion st = Inr (st\<lparr>congestion_detected := True\<rparr>))
          \<and> (mean < 200 \<longrightarrow> detect_congestion st = Inr (st\<lparr>congestion_detected := False\<rparr>))
          \<and> (200 \<le> mean \<and> mean \<le> 500 \<longrightarrow> detect_congestion st = Inr st)))"
proof -
  have short: "length (metrics_history st) < 5 \<Longrightarrow> detect_congestion st = Inr st"
    by (simp add: detect_congestion_def)
  have long: "detect_congestion st =
      (let mean = (avg_latency_ms m1 + avg_latency_ms m2 + avg_latency_ms m3
                      + avg_latency_ms m4 + avg_latency_ms m5) / 5
       in if mean > 500 then Inr (st\<lparr>congestion_detected := True\<rparr>)
          else if mean < 200 then Inr (st\<lparr>congestion_detected := False\<rparr>)
          else Inr st)"
    if h: "metrics_history st = hs @ [m1, m2, m3, m4, m5]"
  proof -
    have "py_slice_last 5 (metrics_history st) = [m1, m2, m3, m4, m5]"
      by (simp add: py_slice_last_def h)
    then show ?thesis
      by (simp add: detect_congestion_def h py_truediv_def Let_def add.assoc)
  qed
  show ?thesis using short long by (auto simp: Let_def)
qed

theorem detect_congestion_hysteresis_witness:
  "detect_congestion (booster_with [600, 600, 600, 600] False) = Inr (booster_with [600, 600, 600, 600] False)
   \<and> detect_congestion (booster_with [600, 600, 600, 600, 600] False)
       = Inr (booster_with [600, 600, 600, 600, 600] True)
   \<and> detect_congestion (booster_with [600, 600, 600, 600, 600, 150, 150, 150, 150, 150] True)
       = Inr (booster_with [600, 600, 600, 600, 600, 150, 150, 150, 150, 150] False)
   \<and> detect_congestion (booster_with [600, 300, 300, 300, 300, 300] True)
       = Inr (booster_with [600, 300, 300, 300, 300, 300] True)
   \<and> detect_congestion (booster_with [150, 300, 300, 300, 300, 300] False)
       = Inr (booster_with [150, 300, 300, 300, 300, 300] False)"
  using detect_congestion_hysteresis [of "booster_with [600, 600, 600, 600] False"]
    detect_congestion_hysteresis [of "booster_with [600, 600, 600, 600, 600] False" "[]"
      "snapshot 600" "snapshot 600" "snapshot 600" "snapshot 600" "snapshot 600"]
    detect_congestion_hysteresis [of "booster_with [600, 600, 600, 600, 600, 150, 150, 150, 150, 150] True"
      "map snapshot [600, 600, 600, 600, 600]"
      "snapshot 150" "snapshot 150" "snapshot 150" "snapshot 150" "snapshot 150"]
    detect_congestion_hysteresis [of "booster_with [600, 300, 300, 300, 300, 300] True"
      "[snapshot 600]" "snapshot 300" "snapshot 300" "snapshot 300" "snapshot 300" "snapshot 300"]
    detect_congestion_hysteresis [of "booster_with [150, 300, 300, 300, 300, 300] False"
      "[snapshot 150]" "snapshot 300" "snapshot 300" "snapshot 300" "snapshot 300" "snapshot 300"]
  by (simp add: booster_with_def snapshot_def)

text \<open>
  C9. The block-propagation policy depends on the congestion flag alone: two states with the
  same flag give the same policy for any two block sizes, and the two policies are the ones
  listed.
\<close>

theorem optimize_block_propagation_pure:
  "(congestion_detected st1 = congestion_detected st2 \<longrightarrow>
      optimize_block_propagation st1 b1 = optimize_block_propagation st2 b2)
   \<and> (congestion_detected st \<longrightarrow> optimize_block_propagation st b =
        \<lparr> compression = True, batch_size = 10, priority = ''critical_only'', backpressure = True \<rparr>)
   \<and> (\<not> congestion_detected st \<longrightarrow> optimize_block_propagation st b =
        \<lparr> compression = False, batch_size = 100, priority = ''all'', backpressure = False \<rparr>)"
  by (simp add: optimize_block_propagation_def)

theorem optimize_block_propagation_pure_witness:
  "optimize_block_propagation (booster_with [] True) 1 = optimize_block_propagation (booster_with [600] True) 2048
   \<and> optimize_block_propagation (booster_with [] True) 1 =
        \<lparr> compression = True, batch_size = 10, priority = ''critical_only'', backpressure = True \<rparr>
   \<and> optimize_block_propagation (booster_with [] False) 1 =
        \<lparr> compression = False, batch_size = 100, priority = ''all'', backpressure = False \<rparr>"
proof -
  have same: "congestion_detected (booster_with [] True) = congestion_detected (booster_with [600] True)"
    by (simp add: booster_with_def)
  have on: "congestion_detected (booster_with [] True)"
    and off: "\<not> congestion_detected (booster_with [] False)"
    by (simp_all add: booster_with_def)
  from optimize_block_propagation_pure [of "booster_with [] True" "booster_with [600] True" 1 2048
      "booster_with [] True" 1]
    optimize_block_propagation_pure [of "booster_with [] True" "booster_with [600] True" 1 2048
      "booster_with [] False" 1] same on off
  show ?thesis by blast
qed

text \<open>
  C10. With no latency sample \<open>calculate_avg_latency\<close> returns 0.0, with no throughput
  sample \<open>calculate_avg_throughput\<close> returns 0.0, neither ever fails on a division, and a
  health snapshot taken with no peer is recorded with \<open>avg_latency_ms = 0.0\<close>.
\<close>

theorem calculate_avg_no_samples:
  "(peer_latencies st = [] \<longrightarrow> calculate_avg_latency st = Inr 0)
   \<and> (throughput_stats st = [] \<longrightarrow> calculate_avg_throughput st = Inr 0)
   \<and> (\<exists>v. calculate_avg_latency st = Inr v)
   \<and> (\<exists>v. calculate_avg_throughput st = Inr v)
   \<and> (peer_latencies st = [] \<longrightarrow>
        (\<exists>st'. monitor_network_health now st = Inr st' \<and> metrics_history st' \<noteq> []
           \<and> avg_latency_ms (last (metrics_history st')) = 0
           \<and> connected_peers (last (metrics_history st')) = 0))"
proof -
  have a: "peer_latencies st = [] \<Longrightarrow> calculate_avg_latency st = Inr 0"
    by (simp add: calculate_avg_latency_def)
  have b: "throughput_stats st = [] \<Longrightarrow> calculate_avg_throughput st = Inr 0"
    by (simp add: calculate_avg_throughput_def)
  have c: "\<exists>v. calculate_avg_latency st = Inr v"
    by (simp add: calculate_avg_latency_def py_truediv_def)
  have d: "\<exists>v. calculate_avg_throughput st = Inr v"
    by (simp add: calculate_avg_throughput_def py_truediv_def)
  have e: "\<exists>st'. monitor_network_health now st = Inr st' \<and> metrics_history st' \<noteq> []
           \<and> avg_latency_ms (last (metrics_history st')) = 0
           \<and> connected_peers (last (metrics_history st')) = 0"
    if "peer_latencies st = []"
    using that a by (simp add: monitor_network_health_def Let_def py_slice_last_def)
  show ?thesis using a b c d e by blast
qed

theorem calculate_avg_no_samples_witness:
  "calculate_avg_latency (booster_with [] False) = Inr 0
   \<and> calculate_avg_throughput (booster_with [] False) = Inr 0
   \<and> (\<exists>st'. monitor_network_health 7 (booster_with [] False) = Inr st' \<and> metrics_history st' \<noteq> []
           \<and> avg_latency_ms (last (metrics_history st')) = 0
           \<and> connected_peers (last (metrics_history st')) = 0)"
  using calculate_avg_no_samples [of "booster_with [] False" 7]
  by (simp add: booster_with_def)

text \<open>
  C6 (as the code has it).  When the peer count exceeds 90% of \<open>max_peers\<close> and
  \<open>max_outbound\<close> is not negative, pruning leaves the registry alone if it holds at most
  \<open>max_outbound\<close> peers; otherwise exactly \<open>max_outbound\<close> peers remain, in ascending
  order of latency, none of them slower than a removed peer, and among peers of equal
  latency the ones registered first are the ones kept.  With distinct latencies every kept
  peer is strictly faster than every removed one.
\<close>

theorem optimize_peer_connections_prune:
  assumes "distinct (map fst (peer_latencies st))"
    and "0 \<le> max_outbound st"
    and "real (length (peer_latencies st)) > real_of_int (max_peers st) * 0.9"
    and "st' = optimize_peer_connections st"
  shows "(int (length (peer_latencies st)) \<le> max_outbound st \<longrightarrow> st' = st)
       \<and> (int (length (peer_latencies st)) > max_outbound st \<longrightarrow>
            length (peer_latencies st') = nat (max_outbound st)
          \<and> set (peer_latencies st') \<subseteq> set (peer_latencies st)
          \<and> sorted (map snd (peer_latencies st'))
          \<and> (\<forall>x \<in> set (peer_latencies st'). \<forall>y \<in> set (peer_latencies st) - set (peer_latencies st').
                 snd x \<le> snd y)
          \<and> (\<forall>l. filter (\<lambda>x. snd x = l) (peer_latencies st') =
                 take (length (filter (\<lambda>x. snd x = l) (peer_latencies st')))
                   (filter (\<lambda>x. snd x = l) (peer_latencies st)))
          \<and> (distinct (map snd (peer_latencies st)) \<longrightarrow>
               (\<forall>x \<in> set (peer_latencies st'). \<forall>y \<in> set (peer_latencies st) - set (peer_latencies st').
                 snd x < snd y)))"
proof -
  let ?pl = "peer_latencies st"
  let ?n = "nat (max_outbound st)"
  let ?s = "sort_key snd ?pl"
  have gate: "\<not> real (length ?pl) < real_of_int (max_peers st) * 0.8"
  proof
    assume a: "real (length ?pl) < real_of_int (max_peers st) * 0.8"
    have "0 \<le> real (length ?pl)" by simp
    with a have "0 < real_of_int (max_peers st)" by (simp add: zero_less_mult_iff)
    then have "real_of_int (max_peers st) * 0.8 \<le> real_of_int (max_peers st) * 0.9" by simp
    with a assms(3) show False by linarith
  qed
  have opt: "st' = prune_poor_performers st"
    using gate assms(3,4) by (simp add: optimize_peer_connections_def)
  have small: "int (length ?pl) \<le> max_outbound st \<Longrightarrow> st' = st"
    by (simp add: opt prune_poor_performers_def)
  have big: ?thesis if big: "int (length ?pl) > max_outbound st"
  proof -
    have kept: "peer_latencies st' = take ?n ?s"
      unfolding opt by (rule prune_kept [OF assms(1,2) big])
    have len: "length (peer_latencies st') = ?n"
      using big assms(2) by (simp add: kept)
    have sub: "set (peer_latencies st') \<subseteq> set ?pl"
      unfolding kept using set_take_subset [of ?n ?s] by simp
    have srt: "sorted (map snd ?s)" by (rule sorted_sort_key)
    have srt': "sorted (map snd (peer_latencies st'))"
      unfolding kept using srt by (simp add: take_map [symmetric] sorted_wrt_take)
    have rest: "set ?pl - set (peer_latencies st') \<subseteq> set (drop ?n ?s)"
    proof -
      have "set ?pl = set (take ?n ?s) \<union> set (drop ?n ?s)"
        by (metis append_take_drop_id set_append set_sort)
      then show ?thesis by (auto simp: kept)
    qed
    have le: "snd x \<le> snd y"
      if "x \<in> set (peer_latencies st')" "y \<in> set ?pl - set (peer_latencies st')" for x y
      using take_sorted_le [OF srt, of x ?n y] that rest by (auto simp: kept)
    have ties: "filter (\<lambda>x. snd x = l) (peer_latencies st') =
                 take (length (filter (\<lambda>x. snd x = l) (peer_latencies st')))
                   (filter (\<lambda>x. snd x = l) ?pl)" for l
      unfolding kept using filter_take_prefix [of "\<lambda>x. snd x = l" ?n ?s]
      by (simp add: sort_key_stable)
    have lt: "snd x < snd y"
      if d: "distinct (map snd ?pl)"
        and x: "x \<in> set (peer_latencies st')" and y: "y \<in> set ?pl - set (peer_latencies st')" for x y
    proof -
      from d have inj: "inj_on snd (set ?pl)" by (simp add: distinct_map)
      have "x \<in> set ?pl" using x sub by auto
      moreover have "y \<in> set ?pl" "x \<noteq> y" using x y by auto
      ultimately have "snd x \<noteq> snd y" using inj by (auto dest: inj_onD)
      with le [OF x y] show ?thesis by simp
    qed
    show ?thesis using big len sub srt' le ties lt by (intro conjI impI allI ballI) auto
  qed
  show ?thesis
  proof (cases "int (length ?pl) > max_outbound st")
    case True
    then show ?thesis by (rule big)
  next
    case False
    then show ?thesis using small by simp
  qed
qed


theorem optimize_peer_connections_prune_witness:
  "length (peer_latencies (optimize_peer_connections three_peers)) = 2
   \<and> set (peer_latencies (optimize_peer_connections three_peers)) \<subseteq> set (peer_latencies three_peers)
   \<and> sorted (map snd (peer_latencies (optimize_peer_connections three_peers)))
   \<and> optimize_peer_connections (three_peers\<lparr>max_outbound := 3\<rparr>) = three_peers\<lparr>max_outbound := 3\<rparr>"
proof -
  have h1: "distinct (map fst (peer_latencies three_peers))" by (simp add: three_peers_def)
  have h2: "0 \<le> max_outbound three_peers" by (simp add: three_peers_def)
  have h3: "real (length (peer_latencies three_peers)) > real_of_int (max_peers three_peers) * 0.9"
    by (simp add: three_peers_def)
  have h4: "int (length (peer_latencies three_peers)) > max_outbound three_peers"
    by (simp add: three_peers_def)
  have h5: "nat (max_outbound three_peers) = 2" by (simp add: three_peers_def)
  let ?t = "three_peers\<lparr>max_outbound := 3\<rparr>"
  have g1: "distinct (map fst (peer_latencies ?t))" by (simp add: three_peers_def)
  have g2: "0 \<le> max_outbound ?t" by simp
  have g3: "real (length (peer_latencies ?t)) > real_of_int (max_peers ?t) * 0.9"
    by (simp add: three_peers_def)
  have g4: "int (length (peer_latencies ?t)) \<le> max_outbound ?t"
    by (simp add: three_peers_def)
  from optimize_peer_connections_prune [OF h1 h2 h3 refl] h4
    optimize_peer_connections_prune [OF g1 g2 g3 refl] g4 h5
  show ?thesis by simp
qed

text \<open>
  C6 as stated fails on the tie-break: of two peers with equal latency the code keeps the
  one registered first, not the one with the smaller identifier.
\<close>

theorem prune_tie_break_counterexample:
  "peer_latencies (optimize_peer_connections tie_booster) \<noteq> spec_prune tie_booster"
  by (simp add: optimize_peer_connections_def prune_poor_performers_def tie_booster_def
      py_slice_to_def dict_from_items_def spec_prune_def)

section \<open>Security guardian: properties\<close>

text \<open>
  C1 (as the code has it).  For a peer that is not blocked and has
  \<open>n = successful_blocks + failed_validations > 0\<close>, the reputation recompute sets
  \<open>trust_score\<close> to \<open>0.7 * (successful_blocks / n) - 0.3 * min (dos_attempts / 10) 0.3\<close>
  clamped to [0, 1], and then multiplies it by 0.9 if the peer has been idle for more than
  24 hours.  The cap on the denial-of-service share is 0.3, not 1.0.
\<close>

theorem update_peer_reputation_score:
  assumes "map_of (peer_reputation st) pid = Some reputation"
    and "\<not> blocked reputation"
    and "successful_blocks reputation + failed_validations reputation > 0"
  shows "\<exists>reputation'.
           map_of (peer_reputation (update_peer_reputation current_time st)) pid = Some reputation'
         \<and> trust_score reputation' =
             max 0 (min 1 (0.7 * (real_of_int (successful_blocks reputation)
                                   / real_of_int (successful_blocks reputation
                                                  + failed_validations reputation))
                           - 0.3 * min (real_of_int (dos_attempts reputation) / 10) 0.3))
             * (if total_seconds (current_time - last_seen reputation) / 3600 > 24 then 0.9 else 1)"
  using assms
  by (simp add: update_peer_reputation_def map_of_map_values update_reputation_def Let_def
      algebra_simps)

theorem update_peer_reputation_score_witness:
  "map_option trust_score
     (map_of (peer_reputation (update_peer_reputation 0 (guardian_with [(''p'', flooding_peer)]))) ''p'')
     = Some 0.61
   \<and> map_option trust_score
     (map_of (peer_reputation (update_peer_reputation 90000000000
         (guardian_with [(''p'', flooding_peer)]))) ''p'')
     = Some 0.549"
proof -
  let ?st = "guardian_with [(''p'', flooding_peer)]"
  have h1: "map_of (peer_reputation ?st) ''p'' = Some flooding_peer"
    by (simp add: guardian_with_def)
  have h2: "\<not> blocked flooding_peer"
    by (simp add: flooding_peer_def sample_peer_def new_PeerReputation_def)
  have h3: "successful_blocks flooding_peer + failed_validations flooding_peer > 0"
    by (simp add: flooding_peer_def sample_peer_def new_PeerReputation_def)
  from update_peer_reputation_score [OF h1 h2 h3, of 0]
    update_peer_reputation_score [OF h1 h2 h3, of 90000000000]
  show ?thesis
    by (auto simp: flooding_peer_def sample_peer_def new_PeerReputation_def total_seconds_def)
qed

text \<open>
  C1 as stated fails: a peer with one successful block, no failure and ten denial-of-service
  attempts is scored 0.61 by the code and 0.4 by the stated formula.
\<close>

theorem update_peer_reputation_score_counterexample:
  "map (\<lambda>(pid, reputation). trust_score reputation)
     (peer_reputation (update_peer_reputation 0 (guardian_with [(''p'', flooding_peer)])))
   \<noteq> [spec_trust_score (successful_blocks flooding_peer) (failed_validations flooding_peer)
         (dos_attempts flooding_peer)]"
  by (simp add: update_peer_reputation_def update_reputation_def guardian_with_def
      flooding_peer_def sample_peer_def new_PeerReputation_def total_seconds_def
      spec_trust_score_def Let_def)

text \<open>
  C3. With the threshold at 100 and an address that has an entry in the connection log, one
  run of the detection blocks the address and appends exactly one event for it, of type
  \<open>DOS\<close> and severity \<open>CRITICAL\<close>, when more than 100 of its attempts fall in the trailing
  60 seconds (so with 101); with at most 100 (so with 99 or fewer) the run leaves the
  address's membership of \<open>blocked_ips\<close> as it was and appends no event for it.
\<close>

theorem detect_dos_attacks_threshold:
  assumes "dos_threshold st = 100"
    and "distinct (map fst (connection_attempts st))"
    and "(ip, timestamps) \<in> set (connection_attempts st)"
  shows "\<exists>new. security_events (detect_dos_attacks now st) = security_events st @ new
          \<and> (length (recent_attempts now timestamps) > 100 \<longrightarrow>
                ip \<in> blocked_ips (detect_dos_attacks now st)
              \<and> (\<exists>e. filter (\<lambda>e. event_peer_id e = ''ip_'' @ ip) new = [e]
                     \<and> event_type e = DOS \<and> severity e = CRITICAL \<and> timestamp e = now))
          \<and> (length (recent_attempts now timestamps) \<le> 100 \<longrightarrow>
                (ip \<in> blocked_ips (detect_dos_attacks now st) \<longleftrightarrow> ip \<in> blocked_ips st)
              \<and> filter (\<lambda>e. event_peer_id e = ''ip_'' @ ip) new = [])"
proof -
  let ?items = "connection_attempts st"
  let ?new = "map (dos_event_of now) (filter (exceeds now 100) ?items)"
  have ev: "security_events (detect_dos_attacks now st) = security_events st @ ?new"
    by (simp add: detect_dos_attacks_def dos_fold_fields assms(1))
  have bl: "blocked_ips (detect_dos_attacks now st) =
              blocked_ips st \<union> fst ` set (filter (exceeds now 100) ?items)"
    by (simp add: detect_dos_attacks_def dos_fold_fields assms(1))
  have for_ip: "filter (\<lambda>e. event_peer_id e = ''ip_'' @ ip) ?new =
                  (if exceeds now 100 (ip, timestamps) then [dos_event_of now (ip, timestamps)] else [])"
    by (rule dos_events_for_ip [OF assms(2,3)])
  have props: "event_type (dos_event_of now (ip, timestamps)) = DOS
               \<and> severity (dos_event_of now (ip, timestamps)) = CRITICAL
               \<and> timestamp (dos_event_of now (ip, timestamps)) = now"
    by (simp add: dos_event_of_def dos_event_def)
  have over: "ip \<in> blocked_ips (detect_dos_attacks now st)
              \<and> (\<exists>e. filter (\<lambda>e. event_peer_id e = ''ip_'' @ ip) ?new = [e]
                     \<and> event_type e = DOS \<and> severity e = CRITICAL \<and> timestamp e = now)"
    if "length (recent_attempts now timestamps) > 100"
  proof -
    from that have ex: "exceeds now 100 (ip, timestamps)" by (simp add: exceeds_def)
    with assms(3) have "(ip, timestamps) \<in> set (filter (exceeds now 100) ?items)" by simp
    then have "fst (ip, timestamps) \<in> fst ` set (filter (exceeds now 100) ?items)"
      by (rule imageI)
    then have mem: "ip \<in> blocked_ips (detect_dos_attacks now st)"
      unfolding bl by simp
    from ex have one: "filter (\<lambda>e. event_peer_id e = ''ip_'' @ ip) ?new
                        = [dos_event_of now (ip, timestamps)]"
      unfolding for_ip by (simp only: if_True)
    from mem one props show ?thesis by blast
  qed
  have under: "(ip \<in> blocked_ips (detect_dos_attacks now st) \<longleftrightarrow> ip \<in> blocked_ips st)
              \<and> filter (\<lambda>e. event_peer_id e = ''ip_'' @ ip) ?new = []"
    if "length (recent_attempts now timestamps) \<le> 100"
  proof -
    from that have nex: "\<not> exceeds now 100 (ip, timestamps)" by (simp add: exceeds_def)
    have "ip \<notin> fst ` set (filter (exceeds now 100) ?items)"
    proof
      assume "ip \<in> fst ` set (filter (exceeds now 100) ?items)"
      then obtain x where x: "x \<in> set (filter (exceeds now 100) ?items)" "ip = fst x"
        by (rule imageE)
      obtain ts where xts: "x = (ip, ts)" using x(2) by (cases x) simp
      from x(1) xts have ts: "(ip, ts) \<in> set ?items" "exceeds now 100 (ip, ts)" by simp_all
      from assms(2) ts(1) assms(3) have "ts = timestamps"
        by (rule eq_key_imp_eq_value)
      with ts(2) nex show False by simp
    qed
    then have same: "ip \<in> blocked_ips (detect_dos_attacks now st) \<longleftrightarrow> ip \<in> blocked_ips st"
      unfolding bl by simp
    from nex have none: "filter (\<lambda>e. event_peer_id e = ''ip_'' @ ip) ?new = []"
      unfolding for_ip by (simp only: if_False)
    from same none show ?thesis by (rule conjI)
  qed
  from ev over under show ?thesis by blast
qed

theorem detect_dos_attacks_threshold_witness:
  "''10.0.0.1'' \<in> blocked_ips (detect_dos_attacks 59999999 (flood 101))
   \<and> map event_type (filter (\<lambda>e. event_peer_id e = ''ip_'' @ ''10.0.0.1'')
        (security_events (detect_dos_attacks 59999999 (flood 101)))) = [DOS]
   \<and> map severity (filter (\<lambda>e. event_peer_id e = ''ip_'' @ ''10.0.0.1'')
        (security_events (detect_dos_attacks 59999999 (flood 101)))) = [CRITICAL]
   \<and> ''10.0.0.1'' \<notin> blocked_ips (detect_dos_attacks 59999999 (flood 99))
   \<and> filter (\<lambda>e. event_peer_id e = ''ip_'' @ ''10.0.0.1'')
        (security_events (detect_dos_attacks 59999999 (flood 99))) = []"
proof -
  have t: "dos_threshold (flood n) = 100" for n by (simp add: flood_def guardian_with_def)
  have d: "distinct (map fst (connection_attempts (flood n)))" for n by (simp add: flood_def)
  have m: "(''10.0.0.1'', replicate n 0) \<in> set (connection_attempts (flood n))" for n
    by (simp add: flood_def)
  have r: "length (recent_attempts 59999999 (replicate n 0)) = n" for n
    by (simp add: recent_attempts_def total_seconds_def)
  have e: "security_events (flood n) = []" "blocked_ips (flood n) = {}" for n
    by (simp_all add: flood_def guardian_with_def)
  have big: "length (recent_attempts 59999999 (replicate 101 0)) > 100" unfolding r by simp
  have small: "length (recent_attempts 59999999 (replicate 99 0)) \<le> 100" unfolding r by simp
  from detect_dos_attacks_threshold [OF t d m, where n1 = 101 and now = 59999999] big
  obtain new ev where hi:
    "security_events (detect_dos_attacks 59999999 (flood 101)) = security_events (flood 101) @ new"
    "''10.0.0.1'' \<in> blocked_ips (detect_dos_attacks 59999999 (flood 101))"
    "filter (\<lambda>e. event_peer_id e = ''ip_'' @ ''10.0.0.1'') new = [ev]"
    "event_type ev = DOS" "severity ev = CRITICAL"
    by blast
  from detect_dos_attacks_threshold [OF t d m, where n1 = 99 and now = 59999999] small
  obtain new' where lo:
    "security_events (detect_dos_attacks 59999999 (flood 99)) = security_events (flood 99) @ new'"
    "''10.0.0.1'' \<in> blocked_ips (detect_dos_attacks 59999999 (flood 99))
       \<longleftrightarrow> ''10.0.0.1'' \<in> blocked_ips (flood 99)"
    "filter (\<lambda>e. event_peer_id e = ''ip_'' @ ''10.0.0.1'') new' = []"
    by blast
  from hi(1) have h1: "security_events (detect_dos_attacks 59999999 (flood 101)) = new"
    unfolding e by simp
  from lo(1) have l1: "security_events (detect_dos_attacks 59999999 (flood 99)) = new'"
    unfolding e by simp
  from lo(2) have l2: "''10.0.0.1'' \<notin> blocked_ips (detect_dos_attacks 59999999 (flood 99))"
    unfolding e by simp
  show ?thesis unfolding h1 l1 hi(3) lo(3) using hi(2,4,5) l2 by simp
qed

text \<open>
  C4. One Sybil pass over a registry with distinct peer identifiers never fails.  For an
  address shared by five or more peers whose trust is below the configured minimum it
  appends exactly one event for that address, of type \<open>SYBIL\<close> and severity \<open>WARNING\<close>,
  and leaves each of those peers with exactly half its trust; for an address with fewer than
  five such peers (so with four) it appends no event for the address and changes the
  reputation of none of the address's peers.
\<close>

theorem detect_sybil_attacks_per_ip:
  assumes dist: "distinct (map fst (peer_reputation st))"
  shows "\<exists>st' new. detect_sybil_attacks now st = Inr st'
      \<and> security_events st' = security_events st @ new
      \<and> (let suspicious = filter (\<lambda>(p, r). ip_address r = ip \<and> trust_score r < min_trust_score st)
                             (peer_reputation st)
         in (5 \<le> length suspicious \<longrightarrow>
               (\<exists>e. filter (\<lambda>e. event_peer_id e = ip) new = [e]
                   \<and> event_type e = SYBIL \<and> severity e = WARNING)
             \<and> (\<forall>(p, r) \<in> set suspicious.
                   map_of (peer_reputation st') p = Some (r\<lparr>trust_score := trust_score r * 0.5\<rparr>)))
          \<and> (length suspicious < 5 \<longrightarrow>
               filter (\<lambda>e. event_peer_id e = ip) new = []
             \<and> (\<forall>(p, r) \<in> set (peer_reputation st).
                   ip_address r = ip \<longrightarrow> map_of (peer_reputation st') p = Some r)))"
proof -
  let ?d = "peer_reputation st"
  let ?gs = "foldl ip_to_peers_add [] ?d"
  let ?ps = "peers_at ip ?d"
  let ?S = "filter (low_trust st) ?ps"
  let ?sus = "filter (\<lambda>(p, r). ip_address r = ip \<and> trust_score r < min_trust_score st) ?d"
  from detect_sybil_attacks_total obtain st' where run: "detect_sybil_attacks now st = Inr st'"
    by blast
  have S: "?S = map fst ?sus" by (rule low_trust_filter [OF dist])
  then have len: "length ?S = length ?sus" by simp
  have look: "map_of ?d p = Some r" if "(p, r) \<in> set ?d" for p r
    using dist that by (rule map_of_is_SomeI)
  have in_ps: "p \<in> set ?ps" if "(p, r) \<in> set ?d" "ip_address r = ip" for p r
    using that by (auto simp: set_peers_at)
  have in_S: "p \<in> set ?S" if "(p, r) \<in> set ?sus" for p r
    unfolding S using that by force
  have ev_id: "event_peer_id (sybil_event now ip n) = ip"
    "event_type (sybil_event now ip n) = SYBIL" "severity (sybil_event now ip n) = WARNING" for n
    by (simp_all add: sybil_event_def)
  show ?thesis
  proof (cases "?ps = []")
    case True
    from ip_to_peers_char [OF dist] True have "map_of ?gs ip = None" by simp
    then have nk: "ip \<notin> fst ` set ?gs" by (simp add: map_of_eq_None_iff)
    from run have "for_each (sybil_step now) ?gs st = Inr st'"
      by (simp add: detect_sybil_attacks_def ip_to_peers_def)
    from sybil_loop_events [OF this] obtain new
      where new: "security_events st' = security_events st @ new"
        and ids: "\<forall>e \<in> set new. event_peer_id e \<in> fst ` set ?gs"
      by blast
    from ids nk have "\<forall>e \<in> set new. event_peer_id e \<noteq> ip" by auto
    then have none: "filter (\<lambda>e. event_peer_id e = ip) new = []" by (rule filter_none)
    from True have "?S = []" by simp
    with len have short: "length ?sus = 0" by simp
    have i1: "5 \<le> length ?sus \<longrightarrow>
               (\<exists>e. filter (\<lambda>e. event_peer_id e = ip) new = [e]
                   \<and> event_type e = SYBIL \<and> severity e = WARNING)
             \<and> (\<forall>(p, r) \<in> set ?sus.
                   map_of (peer_reputation st') p = Some (r\<lparr>trust_score := trust_score r * 0.5\<rparr>))"
      using short by simp
    have nobody: "\<forall>(p, r) \<in> set ?d. ip_address r = ip \<longrightarrow> map_of (peer_reputation st') p = Some r"
    proof (intro ballI, clarify)
      fix p r assume "(p, r) \<in> set ?d"
      then have "p \<in> set (peers_at (ip_address r) ?d)" by (auto simp: set_peers_at)
      moreover assume "ip = ip_address r"
      ultimately have "p \<in> set ?ps" by simp
      with True show "map_of (peer_reputation st') p = Some r" by simp
    qed
    from none nobody have i2: "length ?sus < 5 \<longrightarrow>
               filter (\<lambda>e. event_peer_id e = ip) new = []
             \<and> (\<forall>(p, r) \<in> set ?d. ip_address r = ip \<longrightarrow> map_of (peer_reputation st') p = Some r)"
      by (intro impI conjI)
    show ?thesis unfolding Let_def
      apply (rule exI [of _ st'])
      apply (rule exI [of _ new])
      apply (intro conjI)
         apply (rule run)
        apply (rule new)
       apply (rule i1)
      apply (rule i2)
      done
  next
    case False
    show ?thesis
    proof (rule sybil_target [OF dist run False])
    fix evs1 evs3 :: "SecurityEvent list" and st2 :: SecurityGuardian
    assume n1: "\<forall>e \<in> set evs1. event_peer_id e \<noteq> ip" and n3: "\<forall>e \<in> set evs3. event_peer_id e \<noteq> ip"
      and s3: "\<forall>q \<in> set ?ps. map_of (peer_reputation st') q = map_of (peer_reputation st2) q"
      and hi_ev: "5 \<le> length ?S \<Longrightarrow>
           security_events st' = security_events st @ evs1 @ [sybil_event now ip (length ?S)] @ evs3"
      and hi_half: "5 \<le> length ?S \<Longrightarrow>
           \<forall>q \<in> set ?S. map_of (peer_reputation st2) q = map_option halved (map_of ?d q)"
      and lo_ev: "\<not> 5 \<le> length ?S \<Longrightarrow> security_events st' = security_events st @ evs1 @ evs3"
      and lo_same: "\<not> 5 \<le> length ?S \<Longrightarrow>
           \<forall>q \<in> set ?ps. map_of (peer_reputation st2) q = map_of ?d q"
    note f1 = filter_none [OF n1] and f3 = filter_none [OF n3]
    show ?thesis
    proof (cases "5 \<le> length ?sus")
      case True
      then have big: "5 \<le> length ?S" by (simp add: len)
      let ?new = "evs1 @ [sybil_event now ip (length ?S)] @ evs3"
      have one: "filter (\<lambda>e. event_peer_id e = ip) ?new = [sybil_event now ip (length ?S)]"
        by (simp add: f1 f3 ev_id)
      have halves: "\<forall>(p, r) \<in> set ?sus.
          map_of (peer_reputation st') p = Some (r\<lparr>trust_score := trust_score r * 0.5\<rparr>)"
      proof (intro ballI, clarify)
        fix p r assume pr: "(p, r) \<in> set ?sus"
        then have mem: "(p, r) \<in> set ?d" "ip_address r = ip" by simp_all
        from in_S [OF pr] have pS: "p \<in> set ?S" .
        then have "p \<in> set ?ps" by simp
        with s3 have "map_of (peer_reputation st') p = map_of (peer_reputation st2) p" by blast
        also from hi_half [OF big] pS have "\<dots> = map_option halved (map_of ?d p)" by blast
        also have "\<dots> = Some (r\<lparr>trust_score := trust_score r * 0.5\<rparr>)"
          by (simp add: look [OF mem(1)] halved_def)
        finally show "map_of (peer_reputation st') p = Some (r\<lparr>trust_score := trust_score r * 0.5\<rparr>)" .
      qed
      have ex: "\<exists>e. filter (\<lambda>e. event_peer_id e = ip) ?new = [e]
                   \<and> event_type e = SYBIL \<and> severity e = WARNING"
        using one ev_id by blast
      from ex halves have i1: "5 \<le> length ?sus \<longrightarrow>
               (\<exists>e. filter (\<lambda>e. event_peer_id e = ip) ?new = [e]
                   \<and> event_type e = SYBIL \<and> severity e = WARNING)
             \<and> (\<forall>(p, r) \<in> set ?sus.
                   map_of (peer_reputation st') p = Some (r\<lparr>trust_score := trust_score r * 0.5\<rparr>))"
        by (intro impI conjI)
      from True have i2: "length ?sus < 5 \<longrightarrow>
               filter (\<lambda>e. event_peer_id e = ip) ?new = []
             \<and> (\<forall>(p, r) \<in> set ?d. ip_address r = ip \<longrightarrow> map_of (peer_reputation st') p = Some r)"
        by simp
      show ?thesis unfolding Let_def
        apply (rule exI [of _ st'])
        apply (rule exI [of _ ?new])
        apply (intro conjI)
           apply (rule run)
          apply (rule hi_ev [OF big])
         apply (rule i1)
        apply (rule i2)
        done
    next
      case False
      then have small: "\<not> 5 \<le> length ?S" by (simp add: len)
      let ?new = "evs1 @ evs3"
      have none: "filter (\<lambda>e. event_peer_id e = ip) ?new = []" by (simp add: f1 f3)
      have same: "\<forall>(p, r) \<in> set ?d. ip_address r = ip \<longrightarrow> map_of (peer_reputation st') p = Some r"
      proof (intro ballI, clarify)
        fix p r assume mem: "(p, r) \<in> set ?d"
        then have "p \<in> set (peers_at (ip_address r) ?d)" by (auto simp: set_peers_at)
        moreover assume "ip = ip_address r"
        ultimately have pp: "p \<in> set ?ps" by simp
        with s3 have "map_of (peer_reputation st') p = map_of (peer_reputation st2) p" by blast
        also from lo_same [OF small] pp have "\<dots> = map_of ?d p" by blast
        finally show "map_of (peer_reputation st') p = Some r" by (simp add: look [OF mem])
      qed
      from False have i1: "5 \<le> length ?sus \<longrightarrow>
               (\<exists>e. filter (\<lambda>e. event_peer_id e = ip) ?new = [e]
                   \<and> event_type e = SYBIL \<and> severity e = WARNING)
             \<and> (\<forall>(p, r) \<in> set ?sus.
                   map_of (peer_reputation st') p = Some (r\<lparr>trust_score := trust_score r * 0.5\<rparr>))"
        by simp
      from none same have i2: "length ?sus < 5 \<longrightarrow>
               filter (\<lambda>e. event_peer_id e = ip) ?new = []
             \<and> (\<forall>(p, r) \<in> set ?d. ip_address r = ip \<longrightarrow> map_of (peer_reputation st') p = Some r)"
        by (intro impI conjI)
      show ?thesis unfolding Let_def
        apply (rule exI [of _ st'])
        apply (rule exI [of _ ?new])
        apply (intro conjI)
           apply (rule run)
          apply (rule lo_ev [OF small])
         apply (rule i1)
        apply (rule i2)
        done
    qed
    qed
  qed
qed

theorem detect_sybil_attacks_per_ip_witness:
  "\<exists>st'. detect_sybil_attacks 7 sybil_guardian = Inr st'
     \<and> map event_type (filter (\<lambda>e. event_peer_id e = ''10.0.0.1'') (security_events st')) = [SYBIL]
     \<and> map severity (filter (\<lambda>e. event_peer_id e = ''10.0.0.1'') (security_events st')) = [WARNING]
     \<and> map_option trust_score (map_of (peer_reputation st') ''a1'') = Some 0.25
     \<and> map_option trust_score (map_of (peer_reputation st') ''a5'') = Some 0.25
     \<and> filter (\<lambda>e. event_peer_id e = ''10.0.0.2'') (security_events st') = []
     \<and> map_option trust_score (map_of (peer_reputation st') ''b1'') = Some 0.5
     \<and> map_option trust_score (map_of (peer_reputation st') ''b4'') = Some 0.5"
proof -
  have d: "distinct (map fst (peer_reputation sybil_guardian))"
    by (simp add: sybil_guardian_def guardian_with_def)
  have e: "security_events sybil_guardian = []"
    by (simp add: sybil_guardian_def guardian_with_def)
  let ?susA = "filter (\<lambda>(p, r). ip_address r = ''10.0.0.1'' \<and> trust_score r < min_trust_score sybil_guardian)
                 (peer_reputation sybil_guardian)"
  let ?susB = "filter (\<lambda>(p, r). ip_address r = ''10.0.0.2'' \<and> trust_score r < min_trust_score sybil_guardian)
                 (peer_reputation sybil_guardian)"
  have lA: "length ?susA = 5"
    by (simp add: sybil_guardian_def guardian_with_def sample_peer_def new_PeerReputation_def)
  have lB: "length ?susB = 4"
    by (simp add: sybil_guardian_def guardian_with_def sample_peer_def new_PeerReputation_def)
  have mA: "(''a1'', sample_peer ''a1'' ''10.0.0.1'' 0.5) \<in> set ?susA"
    "(''a5'', sample_peer ''a5'' ''10.0.0.1'' 0.5) \<in> set ?susA"
    by (simp_all add: sybil_guardian_def guardian_with_def sample_peer_def new_PeerReputation_def)
  have mB: "(''b1'', sample_peer ''b1'' ''10.0.0.2'' 0.5) \<in> set (peer_reputation sybil_guardian)"
    "(''b4'', sample_peer ''b4'' ''10.0.0.2'' 0.5) \<in> set (peer_reputation sybil_guardian)"
    by (simp_all add: sybil_guardian_def guardian_with_def)
  have ipB: "ip_address (sample_peer p ''10.0.0.2'' t) = ''10.0.0.2''" for p t
    by (simp add: sample_peer_def new_PeerReputation_def)
  have tr: "trust_score (sample_peer p i t) = t" for p i t
    by (simp add: sample_peer_def new_PeerReputation_def)
  from detect_sybil_attacks_per_ip [OF d, of 7 "''10.0.0.1''"] lA
  obtain st' new ev where A: "detect_sybil_attacks 7 sybil_guardian = Inr st'"
    "security_events st' = security_events sybil_guardian @ new"
    "filter (\<lambda>e. event_peer_id e = ''10.0.0.1'') new = [ev]"
    "event_type ev = SYBIL" "severity ev = WARNING"
    "\<forall>(p, r) \<in> set ?susA.
        map_of (peer_reputation st') p = Some (r\<lparr>trust_score := trust_score r * 0.5\<rparr>)"
    unfolding Let_def by auto
  from detect_sybil_attacks_per_ip [OF d, of 7 "''10.0.0.2''"] lB
  obtain st'' new' where B: "detect_sybil_attacks 7 sybil_guardian = Inr st''"
    "security_events st'' = security_events sybil_guardian @ new'"
    "filter (\<lambda>e. event_peer_id e = ''10.0.0.2'') new' = []"
    "\<forall>(p, r) \<in> set (peer_reputation sybil_guardian).
        ip_address r = ''10.0.0.2'' \<longrightarrow> map_of (peer_reputation st'') p = Some r"
    unfolding Let_def by auto
  from A(1) B(1) have same: "st'' = st'" by simp
  from bspec [OF A(6) mA(1)]
  have "map_of (peer_reputation st') ''a1'' =
          Some ((sample_peer ''a1'' ''10.0.0.1'' 0.5)\<lparr>trust_score := 0.5 * 0.5\<rparr>)"
    by (simp add: tr)
  then have a1: "map_option trust_score (map_of (peer_reputation st') ''a1'') = Some 0.25"
    by simp
  from bspec [OF A(6) mA(2)]
  have "map_of (peer_reputation st') ''a5'' =
          Some ((sample_peer ''a5'' ''10.0.0.1'' 0.5)\<lparr>trust_score := 0.5 * 0.5\<rparr>)"
    by (simp add: tr)
  then have a5: "map_option trust_score (map_of (peer_reputation st') ''a5'') = Some 0.25"
    by simp
  from bspec [OF B(4) mB(1)]
  have b1: "map_option trust_score (map_of (peer_reputation st') ''b1'') = Some 0.5"
    unfolding same by (simp add: ipB tr)
  from bspec [OF B(4) mB(2)]
  have b4: "map_option trust_score (map_of (peer_reputation st') ''b4'') = Some 0.5"
    unfolding same by (simp add: ipB tr)
  note a = a1 a5 and b = b1 b4
  from A(2) have evA: "security_events st' = new" by (simp add: e)
  from B(2) have evB: "security_events st' = new'" unfolding same by (simp add: e)
  have t1: "map event_type (filter (\<lambda>e. event_peer_id e = ''10.0.0.1'') (security_events st')) = [SYBIL]"
    and t2: "map severity (filter (\<lambda>e. event_peer_id e = ''10.0.0.1'') (security_events st')) = [WARNING]"
    unfolding evA A(3) using A(4,5) by simp_all
  have t3: "filter (\<lambda>e. event_peer_id e = ''10.0.0.2'') (security_events st') = []"
    unfolding evB by (rule B(3))
  show ?thesis
    by (rule exI [of _ st']) (intro conjI; fact A(1) t1 t2 t3 a1 a5 b1 b4)
qed

text \<open>
  C2. Every sequence of operations of the guardian, run from the state \<open>__init__\<close> builds,
  returns without error and leaves every peer's \<open>trust_score\<close> within [0, 1]; a peer that
  \<open>register_peer\<close> creates starts at 0.5.  The operations are registration, recorded
  successes and failures, recorded connection attempts, the four detectors, the reputation
  recompute with its idle decay, the cleanup and whole security cycles.
\<close>

theorem trust_score_bounded:
  "(\<exists>st. run_ops ops (SecurityGuardian_init config) = Inr st
        \<and> (\<forall>(p, reputation) \<in> set (peer_reputation st).
              0 \<le> trust_score reputation \<and> trust_score reputation \<le> 1))
   \<and> (\<not> dict_contains pid (peer_reputation st0) \<longrightarrow>
        map_option trust_score (map_of (peer_reputation (register_peer pid ip now st0)) pid)
          = Some 0.5)"
proof -
  have "trust_bounded (peer_reputation (SecurityGuardian_init config))"
    by (simp add: SecurityGuardian_init_def trust_bounded_def)
  from run_ops_bounded [OF this, of ops]
  have run: "\<exists>st. run_ops ops (SecurityGuardian_init config) = Inr st
        \<and> (\<forall>(p, reputation) \<in> set (peer_reputation st).
              0 \<le> trust_score reputation \<and> trust_score reputation \<le> 1)"
    by (simp add: trust_bounded_def list_all_iff)
  have new: "map_option trust_score (map_of (peer_reputation (register_peer pid ip now st0)) pid)
          = Some 0.5" if "\<not> dict_contains pid (peer_reputation st0)"
    using that by (simp add: register_peer_def map_of_dict_set new_PeerReputation_def)
  from run new show ?thesis by blast
qed

theorem trust_score_bounded_witness:
  "\<exists>st r. run_ops sample_ops (SecurityGuardian_init default_config) = Inr st
      \<and> map_of (peer_reputation st) ''p'' = Some r
      \<and> 0 \<le> trust_score r \<and> trust_score r \<le> 1
      \<and> map_option trust_score
           (map_of (peer_reputation
              (register_peer ''p'' ''10.0.0.1'' 0 (SecurityGuardian_init default_config))) ''p'')
         = Some 0.5"
proof -
  have fresh: "\<not> dict_contains ''p'' (peer_reputation (SecurityGuardian_init default_config))"
    by (simp add: dict_contains_def SecurityGuardian_init_def)
  from trust_score_bounded [of sample_ops default_config "''p''" "SecurityGuardian_init default_config"
      "''10.0.0.1''" 0] fresh
  obtain st where run: "run_ops sample_ops (SecurityGuardian_init default_config) = Inr st"
    and bound: "\<forall>(p, reputation) \<in> set (peer_reputation st).
                  0 \<le> trust_score reputation \<and> trust_score reputation \<le> 1"
    and new: "map_option trust_score
           (map_of (peer_reputation
              (register_peer ''p'' ''10.0.0.1'' 0 (SecurityGuardian_init default_config))) ''p'')
         = Some 0.5"
    by blast
  have "(case run_ops sample_ops (SecurityGuardian_init default_config) of
           Inl e \<Rightarrow> [] | Inr st \<Rightarrow> map fst (peer_reputation st)) = [''p'']"
    by (simp add: run_ops_def sample_ops_def SecurityGuardian_init_def default_config_def
        register_peer_def dict_contains_def record_failed_validation_def
        record_successful_block_def update_peer_reputation_def)
  then have "map fst (peer_reputation st) = [''p'']" by (simp add: run)
  then have "''p'' \<in> fst ` set (peer_reputation st)" by (metis list.set_intros(1) set_map)
  from map_of_key [OF this] obtain r where r: "map_of (peer_reputation st) ''p'' = Some r" by blast
  from map_of_SomeD [OF r] bound have "0 \<le> trust_score r \<and> trust_score r \<le> 1" by blast
  with run r new show ?thesis by blast
qed

text \<open>
  C7 does not hold of the code.  \<open>block_ip\<close> drops the duration it is given and
  \<open>cleanup_expired_blocks\<close> purges old events only, so no operation removes an address
  from \<open>blocked_ips\<close>: an address blocked by the denial-of-service detector with the
  default duration of 60 minutes is still blocked after a security cycle 61 minutes later,
  and after any further sequence of operations.
\<close>

theorem dos_block_never_expires:
  "''10.0.0.1'' \<notin> blocked_ips (flood 101)
   \<and> blacklist_duration_minutes (flood 101) = 60
   \<and> (\<exists>st1. security_cycle 1000000 (flood 101) = Inr st1
          \<and> ''10.0.0.1'' \<in> blocked_ips st1
          \<and> (\<exists>st2. security_cycle 3661000000 st1 = Inr st2 \<and> ''10.0.0.1'' \<in> blocked_ips st2)
          \<and> (\<forall>ops. \<exists>st2. run_ops ops st1 = Inr st2 \<and> ''10.0.0.1'' \<in> blocked_ips st2))"
proof -
  have free: "''10.0.0.1'' \<notin> blocked_ips (flood 101)"
    and dur: "blacklist_duration_minutes (flood 101) = 60"
    by (simp_all add: flood_def guardian_with_def)
  from security_cycle_total obtain st1 where st1: "security_cycle 1000000 (flood 101) = Inr st1"
    by blast
  have "exceeds 1000000 100 (''10.0.0.1'', replicate 101 0)"
    by (simp add: exceeds_def recent_attempts_def total_seconds_def)
  moreover have "(''10.0.0.1'', replicate 101 0) \<in> set (connection_attempts (flood 101))"
    and "dos_threshold (flood 101) = 100"
    by (simp_all add: flood_def guardian_with_def)
  ultimately have "(''10.0.0.1'', replicate 101 0)
      \<in> set (filter (exceeds 1000000 (dos_threshold (flood 101))) (connection_attempts (flood 101)))"
    by simp
  then have "fst (''10.0.0.1'', replicate 101 (0::int))
      \<in> fst ` set (filter (exceeds 1000000 (dos_threshold (flood 101))) (connection_attempts (flood 101)))"
    by (rule imageI)
  then have "''10.0.0.1'' \<in> blocked_ips (detect_dos_attacks 1000000 (flood 101))"
    unfolding detect_dos_attacks_def dos_fold_fields by simp
  with security_cycle_blocked [OF st1] have b1: "''10.0.0.1'' \<in> blocked_ips st1" by simp
  have later: "\<exists>st2. run_ops ops st1 = Inr st2 \<and> ''10.0.0.1'' \<in> blocked_ips st2" for ops
    using run_ops_blocked [of ops st1] b1 by blast
  from later [of "[SecurityCycle 3661000000]"]
  have cyc: "\<exists>st2. security_cycle 3661000000 st1 = Inr st2 \<and> ''10.0.0.1'' \<in> blocked_ips st2"
    by (auto simp: run_ops_def split: sum.splits)
  from free dur st1 b1 cyc later show ?thesis by blast
qed

text \<open>
  C8 does not hold of the code in one field.  For a registered peer
  \<open>record_failed_validation\<close> adds one to \<open>failed_validations\<close> and multiplies
  \<open>trust_score\<close> by 0.8; every other field of the record, \<open>last_seen\<close> included, every
  other peer and the rest of the state stay as they were.  The method does not read the
  clock, whereas \<open>record_successful_block\<close> sets \<open>last_seen\<close>.
\<close>

theorem record_failed_validation_effect:
  assumes "map_of (peer_reputation st) pid = Some reputation"
  shows "map_of (peer_reputation (record_failed_validation pid st)) pid =
           Some (reputation\<lparr>failed_validations := failed_validations reputation + 1,
                            trust_score := trust_score reputation * 0.8\<rparr>)
       \<and> (\<forall>q. q \<noteq> pid \<longrightarrow>
            map_of (peer_reputation (record_failed_validation pid st)) q
              = map_of (peer_reputation st) q)
       \<and> map fst (peer_reputation (record_failed_validation pid st)) = map fst (peer_reputation st)
       \<and> record_failed_validation pid st =
           st\<lparr>peer_reputation := peer_reputation (record_failed_validation pid st)\<rparr>"
proof -
  from assms have "pid \<in> fst ` set (peer_reputation st)"
    by (metis map_of_eq_None_iff option.distinct(1))
  then show ?thesis using assms
    by (simp add: record_failed_validation_def map_of_dict_set map_fst_dict_set)
qed

theorem record_failed_validation_effect_witness:
  "map_option failed_validations
     (map_of (peer_reputation (record_failed_validation ''p''
        (guardian_with [(''p'', sample_peer ''p'' ''10.0.0.1'' 0.5)]))) ''p'') = Some 1
   \<and> map_option trust_score
     (map_of (peer_reputation (record_failed_validation ''p''
        (guardian_with [(''p'', sample_peer ''p'' ''10.0.0.1'' 0.5)]))) ''p'') = Some 0.4
   \<and> map_option last_seen
     (map_of (peer_reputation (record_failed_validation ''p''
        (guardian_with [(''p'', sample_peer ''p'' ''10.0.0.1'' 0.5)]))) ''p'') = Some 0"
proof -
  have h: "map_of (peer_reputation (guardian_with [(''p'', sample_peer ''p'' ''10.0.0.1'' 0.5)])) ''p''
             = Some (sample_peer ''p'' ''10.0.0.1'' 0.5)"
    by (simp add: guardian_with_def)
  from record_failed_validation_effect [OF h] show ?thesis
    by (simp add: sample_peer_def new_PeerReputation_def)
qed

end
